theory Spec2Isabelle
  imports Complex_Main "HOL-Library.Word"
begin

section \<open>Python values\<close>

text \<open>
  A Python \<open>str\<close> is a sequence of Unicode code points, a \<open>bytes\<close> object a sequence
  of octets.  String constants of the source are written with \<open>ascii\<close>; the accented
  letters of the patterns are given by their code points.
\<close>

type_synonym str = "nat list"
type_synonym bytes = "8 word list"

definition ascii :: "string \<Rightarrow> str" where
  "ascii s = map of_char s"

text \<open>
  \<open>str.isspace\<close> of a single character (\<open>Py_UNICODE_ISSPACE\<close>): it is what
  \<open>str.strip()\<close> removes and what \<open>\s\<close> matches in a \<open>str\<close> pattern.
\<close>

definition isspace :: "nat \<Rightarrow> bool" where
  "isspace c \<longleftrightarrow>
     (9 \<le> c \<and> c \<le> 13) \<or> (28 \<le> c \<and> c \<le> 32) \<or> c = 133 \<or> c = 160 \<or> c = 5760 \<or>
     (8192 \<le> c \<and> c \<le> 8202) \<or> c = 8232 \<or> c = 8233 \<or> c = 8239 \<or> c = 8287 \<or> c = 12288"

definition strip :: "str \<Rightarrow> str" where
  "strip s = rev (dropWhile isspace (rev (dropWhile isspace s)))"

text \<open>\<open>s.replace(old, new)\<close> for a pattern \<open>old\<close> of one character.\<close>

definition replace :: "nat \<Rightarrow> str \<Rightarrow> str \<Rightarrow> str" where
  "replace old new s = concat (map (\<lambda>c. if c = old then new else [c]) s)"

text \<open>
  The decimal digit value of a character (\<open>Py_UNICODE_TODECIMAL\<close>).  Below U+0660 the
  only decimal digits are \<open>0\<close> to \<open>9\<close>; from there on the Unicode database of the
  interpreter decides, which is the parameter \<open>ucd\<close>.
\<close>

definition todecimal :: "(nat \<Rightarrow> nat option) \<Rightarrow> nat \<Rightarrow> nat option" where
  "todecimal ucd c =
     (if 48 \<le> c \<and> c \<le> 57 then Some (c - 48) else if c < 1632 then None else ucd c)"

definition isdecimal :: "(nat \<Rightarrow> nat option) \<Rightarrow> nat \<Rightarrow> bool" where
  "isdecimal ucd c \<longleftrightarrow> todecimal ucd c \<noteq> None"

text \<open>Exceptions that the functions of the source raise or let through.\<close>

datatype exn =
    IndexError        \<comment> \<open>raised by \<open>page_to_pdf_bytes\<close>\<close>
  | AttributeError    \<comment> \<open>\<open>.strip()\<close> on the \<open>None\<close> of a group that did not take part\<close>
  | PdfReadError      \<comment> \<open>\<open>PdfReader\<close> could not read the document\<close>
  | LibraryFault      \<comment> \<open>any other exception out of pypdf or pdfminer\<close>
  | ValueError        \<comment> \<open>raised by \<open>JSONResponse\<close> for content it cannot encode\<close>

section \<open>Regular expressions\<close>

text \<open>
  The fragment of Python's \<open>re\<close> that the three patterns use: literal characters,
  \<open>\d\<close> and \<open>\s\<close>, character sets and negated sets, greedy \<open>*\<close>, \<open>+\<close> and \<open>?\<close> on
  a single character, sequence, alternation and one capturing group.
\<close>

datatype item = Chr nat | Digit | Space

datatype atom = Is item | In "item list" | NotIn "item list"

datatype regex =
    Eps
  | Atom atom
  | Star atom
  | Plus atom
  | Opt atom
  | Seq regex regex
  | Alt regex regex
  | Group regex

text \<open>
  Under \<open>re.I\<close> a character of the text matches a literal when both have the same
  lower case, where dotless and dotted I count as \<open>i\<close>, long s as \<open>s\<close> and the Kelvin
  sign as \<open>k\<close>.  The table covers ASCII and Latin-1, where the letters of the three
  patterns are.
\<close>

definition re_lower :: "nat \<Rightarrow> nat" where
  "re_lower c =
     (if 65 \<le> c \<and> c \<le> 90 then c + 32
      else if 192 \<le> c \<and> c \<le> 222 \<and> c \<noteq> 215 then c + 32
      else if c = 304 \<or> c = 305 then 105
      else if c = 383 then 115
      else if c = 8490 then 107
      else if c = 8491 then 229
      else c)"

fun item_ok :: "(nat \<Rightarrow> nat option) \<Rightarrow> bool \<Rightarrow> item \<Rightarrow> nat \<Rightarrow> bool" where
  "item_ok ucd ic (Chr x) c = (if ic then re_lower c = re_lower x else c = x)"
| "item_ok ucd ic Digit c = isdecimal ucd c"
| "item_ok ucd ic Space c = isspace c"

fun atom_ok :: "(nat \<Rightarrow> nat option) \<Rightarrow> bool \<Rightarrow> atom \<Rightarrow> nat \<Rightarrow> bool" where
  "atom_ok ucd ic (Is i) c = item_ok ucd ic i c"
| "atom_ok ucd ic (In is) c = list_ex (\<lambda>i. item_ok ucd ic i c) is"
| "atom_ok ucd ic (NotIn is) c = (\<not> list_ex (\<lambda>i. item_ok ucd ic i c) is)"

text \<open>
  The backtracking matcher.  A state is the text still to be read and the capture of
  group 1 so far; \<open>run\<close> returns every way to match the expression at the front of the
  text, in the order in which the backtracking engine tries them (greedy first, left
  alternative first).
\<close>

fun run :: "(nat \<Rightarrow> nat option) \<Rightarrow> bool \<Rightarrow> regex \<Rightarrow> str \<times> str option \<Rightarrow> (str \<times> str option) list" where
  "run ucd ic Eps st = [st]"
| "run ucd ic (Atom a) (s, g) =
     (case s of [] \<Rightarrow> [] | c # cs \<Rightarrow> if atom_ok ucd ic a c then [(cs, g)] else [])"
| "run ucd ic (Star a) (s, g) =
     map (\<lambda>k. (drop k s, g)) (rev [0..<Suc (length (takeWhile (atom_ok ucd ic a) s))])"
| "run ucd ic (Plus a) (s, g) =
     map (\<lambda>k. (drop k s, g)) (rev [1..<Suc (length (takeWhile (atom_ok ucd ic a) s))])"
| "run ucd ic (Opt a) (s, g) =
     (case s of [] \<Rightarrow> [(s, g)]
      | c # cs \<Rightarrow> if atom_ok ucd ic a c then [(cs, g), (s, g)] else [(s, g)])"
| "run ucd ic (Seq r1 r2) st = concat (map (run ucd ic r2) (run ucd ic r1 st))"
| "run ucd ic (Alt r1 r2) st = run ucd ic r1 st @ run ucd ic r2 st"
| "run ucd ic (Group r) (s, g) =
     map (\<lambda>(s', _). (s', Some (take (length s - length s') s))) (run ucd ic r (s, g))"

text \<open>
  \<open>pattern.search(text)\<close>: the first way to match at the leftmost position that has
  one.  The result is \<open>None\<close> for no match, else the match object, of which only
  \<open>group(1)\<close> is kept (itself \<open>None\<close> when the group took no part in the match).
\<close>

fun search :: "(nat \<Rightarrow> nat option) \<Rightarrow> bool \<Rightarrow> regex \<Rightarrow> str \<Rightarrow> str option option" where
  "search ucd ic r [] = (case run ucd ic r ([], None) of [] \<Rightarrow> None | (_, g) # _ \<Rightarrow> Some g)"
| "search ucd ic r (c # cs) =
     (case run ucd ic r (c # cs, None) of [] \<Rightarrow> search ucd ic r cs | (_, g) # _ \<Rightarrow> Some g)"

definition lit :: "string \<Rightarrow> regex" where
  "lit s = foldr (\<lambda>c r. Seq (Atom (Is (Chr (of_char c)))) r) s Eps"

text \<open>
  \<^verbatim>\<open>cpf_re = re.compile(r"CPF:\s*([\d.\-]+)", re.I)\<close>
\<close>

definition cpf_re :: regex where
  "cpf_re = Seq (lit ''CPF:'') (Seq (Star (Is Space)) (Group (Plus (In [Digit, Chr 46, Chr 45]))))"

text \<open>
  \<^verbatim>\<open>nome_re = re.compile(r"Nome do (?:Colaborador|Funcion[a\<close>U+00E1\<^verbatim>\<open>]rio)\s*\n?([^\n\r]+)", re.I)\<close>
\<close>

definition nome_re :: regex where
  "nome_re =
     Seq (lit ''Nome do '')
    (Seq (Alt (lit ''Colaborador'')
              (Seq (lit ''Funcion'') (Seq (Atom (In [Chr 97, Chr 225])) (lit ''rio''))))
    (Seq (Star (Is Space))
    (Seq (Opt (Is (Chr 10)))
         (Group (Plus (NotIn [Chr 10, Chr 13]))))))"

text \<open>
  \<^verbatim>\<open>liq_re = re.compile(r"SAL[\<close>U+00C1\<^verbatim>\<open>A]RIO L[\<close>U+00CD\<^verbatim>\<open>I]QUIDO\s*R\$\s*([\d.\,]+)", re.I)\<close>
\<close>

definition liq_re :: regex where
  "liq_re =
     Seq (lit ''SAL'')
    (Seq (Atom (In [Chr 193, Chr 65]))
    (Seq (lit ''RIO L'')
    (Seq (Atom (In [Chr 205, Chr 73]))
    (Seq (lit ''QUIDO'')
    (Seq (Star (Is Space))
    (Seq (lit ''R$'')
    (Seq (Star (Is Space))
         (Group (Plus (In [Digit, Chr 46, Chr 44]))))))))))"

section \<open>The interpreter's \<open>float\<close>\<close>

text \<open>
  A model of CPython's \<open>float(s)\<close> on a \<open>str\<close>, used where a statement names
  concrete numbers; the functions of the source take the conversion as a parameter.
  The string is brought to ASCII, underscores between digits are dropped, blanks
  around it are stripped, and what is left must be, with an optional sign, \<open>inf\<close>,
  \<open>infinity\<close> or \<open>nan\<close> in any case, or digits with an optional point and an optional
  exponent.  \<open>Finite q\<close> stands for the binary64 value that the decimal \<open>q\<close> rounds to
  (an infinity when \<open>q\<close> is out of range); the rounding itself is not modelled.
\<close>

datatype pyfloat = Finite rat | Infinite bool | NaN

definition ascii_space :: "nat \<Rightarrow> bool" where
  "ascii_space c \<longleftrightarrow> (9 \<le> c \<and> c \<le> 13) \<or> c = 32"

definition ascii_digit :: "nat \<Rightarrow> bool" where
  "ascii_digit c \<longleftrightarrow> 48 \<le> c \<and> c \<le> 57"

definition ascii_lower :: "nat \<Rightarrow> nat" where
  "ascii_lower c = (if 65 \<le> c \<and> c \<le> 90 then c + 32 else c)"

text \<open>
  Unicode spaces become a blank, Unicode digits their ASCII digit, anything else stops
  the copy with a question mark.
\<close>

fun to_ascii :: "(nat \<Rightarrow> nat option) \<Rightarrow> str \<Rightarrow> str" where
  "to_ascii ucd [] = []"
| "to_ascii ucd (c # cs) =
     (if c < 127 then c # to_ascii ucd cs
      else if isspace c then 32 # to_ascii ucd cs
      else (case todecimal ucd c of None \<Rightarrow> [63] | Some d \<Rightarrow> (48 + d) # to_ascii ucd cs))"

text \<open>An underscore is dropped when it stands between two digits and is an error elsewhere.\<close>

fun underscores :: "nat \<Rightarrow> str \<Rightarrow> str option" where
  "underscores prev [] = (if prev = 95 then None else Some [])"
| "underscores prev (c # cs) =
     (if c = 95 then (if ascii_digit prev then underscores c cs else None)
      else if prev = 95 \<and> \<not> ascii_digit c then None
      else map_option ((#) c) (underscores c cs))"

definition sign :: "str \<Rightarrow> bool \<times> str" where
  "sign s = (case s of [] \<Rightarrow> (False, [])
             | c # cs \<Rightarrow> if c = 45 then (True, cs) else if c = 43 then (False, cs) else (False, s))"

definition inf_or_nan :: "str \<Rightarrow> pyfloat option" where
  "inf_or_nan s =
     (let (neg, t) = sign s; l = map ascii_lower t
      in if l = ascii ''inf'' \<or> l = ascii ''infinity'' then Some (Infinite (\<not> neg))
         else if l = ascii ''nan'' then Some NaN
         else None)"

definition digits_value :: "str \<Rightarrow> nat" where
  "digits_value ds = foldl (\<lambda>n d. 10 * n + (d - 48)) 0 ds"

definition exponent :: "str \<Rightarrow> int option" where
  "exponent s =
     (case s of [] \<Rightarrow> Some 0
      | c # cs \<Rightarrow>
          if c = 101 \<or> c = 69 then
            (let (neg, t) = sign cs
             in if t \<noteq> [] \<and> list_all ascii_digit t
                then Some (if neg then - int (digits_value t) else int (digits_value t))
                else None)
          else None)"

definition scale10 :: "rat \<Rightarrow> int \<Rightarrow> rat" where
  "scale10 m e = (if 0 \<le> e then m * 10 ^ nat e else m / 10 ^ nat (- e))"

definition strtod :: "str \<Rightarrow> rat option" where
  "strtod s =
     (let (neg, s1) = sign s;
          ip = takeWhile ascii_digit s1;
          s2 = dropWhile ascii_digit s1;
          (fp, s3) = (case s2 of [] \<Rightarrow> ([], [])
                      | c # cs \<Rightarrow> if c = 46 then (takeWhile ascii_digit cs, dropWhile ascii_digit cs)
                                 else ([], s2))
      in if ip = [] \<and> fp = [] then None
         else (case exponent s3 of None \<Rightarrow> None
               | Some e \<Rightarrow>
                   Some ((if neg then - 1 else 1) *
                         scale10 (of_nat (digits_value (ip @ fp))) (e - int (length fp)))))"

definition cpython_float :: "(nat \<Rightarrow> nat option) \<Rightarrow> str \<Rightarrow> pyfloat option" where
  "cpython_float ucd s =
     (let t = (if list_all (\<lambda>c. c < 128) s then s else to_ascii ucd s)
      in case underscores 0 t of None \<Rightarrow> None
         | Some u \<Rightarrow>
             (let v = dropWhile ascii_space u;
                  w = rev (dropWhile ascii_space (rev v))
              in if v = [] then None
                 else (case inf_or_nan w of Some f \<Rightarrow> Some f
                       | None \<Rightarrow> map_option Finite (strtod w))))"

text \<open>
  \<open>math.isfinite\<close> of such a value: the decimals from \<open>2 ^ 1024 - 2 ^ 970\<close> on
  round to an infinity.
\<close>

fun pyfloat_isfinite :: "pyfloat \<Rightarrow> bool" where
  "pyfloat_isfinite (Finite q) = (\<bar>q\<bar> < 2 ^ 1024 - 2 ^ 970)"
| "pyfloat_isfinite (Infinite b) = False"
| "pyfloat_isfinite NaN = False"

section \<open>The collaborators\<close>

text \<open>
  What the source calls and does not define: the Unicode database (\<open>ucd\<close>, the digit
  value of the characters from U+0660 on), \<open>float\<close> and the test whether one of its
  values is finite, pypdf's reader, pypdf's writer (the bytes written for a list of
  added pages, \<open>None\<close> when it raises), pdfminer's \<open>extract_text\<close> for one page
  number (\<open>None\<close> when it raises) and \<open>base64.b64encode\<close> followed by
  \<open>decode\<close>.

  \<open>PdfReader\<close> is the constructor, \<open>None\<close> when it raises.  The object it returns
  reads its page tree when \<open>reader.pages\<close> is measured or indexed: \<open>Reader ps\<close> is
  a reader whose \<open>pages\<close> are the list \<open>ps\<close>, or raise when \<open>ps\<close> is \<open>None\<close>.
\<close>

datatype 'p reader = Reader "'p list option"

fun reader_pages :: "'p reader \<Rightarrow> 'p list option" where
  "reader_pages (Reader ps) = ps"

record ('p, 'f) env =
  ucd :: "nat \<Rightarrow> nat option"
  float :: "str \<Rightarrow> 'f option"
  isfinite :: "'f \<Rightarrow> bool"
  PdfReader :: "bytes \<Rightarrow> 'p reader option"
  PdfWriter_write :: "'p list \<Rightarrow> bytes option"
  extract_text :: "bytes \<Rightarrow> nat \<Rightarrow> str option"
  b64encode :: "bytes \<Rightarrow> str"

section \<open>The functions of \<open>main.py\<close>\<close>

text \<open>
  \<open>to_number_br\<close>: \<open>not s\<close> holds for \<open>None\<close> and for the empty string; an
  exception of \<open>float\<close> becomes \<open>None\<close>.
\<close>

definition to_number_br :: "(str \<Rightarrow> 'f option) \<Rightarrow> str option \<Rightarrow> 'f option" where
  "to_number_br fl s =
     (case s of None \<Rightarrow> None
      | Some s \<Rightarrow> if s = [] then None else fl (replace 44 [46] (replace 46 [] s)))"

record 'f fields =
  nome :: str
  cpf :: str
  valor_liquido :: "'f option"

text \<open>\<open>(m.group(1).strip()) if m else ""\<close> for the result \<open>m\<close> of a search.\<close>

definition group1_strip :: "str option option \<Rightarrow> exn + str" where
  "group1_strip m =
     (case m of None \<Rightarrow> Inr []
      | Some None \<Rightarrow> Inl AttributeError
      | Some (Some g) \<Rightarrow> Inr (strip g))"

definition extract_fields_from_text :: "('p, 'f) env \<Rightarrow> str \<Rightarrow> exn + 'f fields" where
  "extract_fields_from_text E text =
     (case group1_strip (search (ucd E) True nome_re text) of Inl e \<Rightarrow> Inl e
      | Inr n \<Rightarrow>
     (case group1_strip (search (ucd E) True cpf_re text) of Inl e \<Rightarrow> Inl e
      | Inr c \<Rightarrow>
     (case group1_strip (search (ucd E) True liq_re text) of Inl e \<Rightarrow> Inl e
      | Inr liq \<Rightarrow>
          Inr \<lparr>nome = n, cpf = c, valor_liquido = to_number_br (float E) (Some liq)\<rparr>)))"

definition page_to_pdf_bytes :: "('p, 'f) env \<Rightarrow> bytes \<Rightarrow> int \<Rightarrow> exn + bytes" where
  "page_to_pdf_bytes E pdf_bytes page_index =
     (case PdfReader E pdf_bytes of None \<Rightarrow> Inl PdfReadError
      | Some reader \<Rightarrow>
          (case reader_pages reader of None \<Rightarrow> Inl LibraryFault
           | Some pages \<Rightarrow>
               if page_index < 0 \<or> page_index \<ge> int (length pages) then Inl IndexError
               else (case PdfWriter_write E [pages ! nat page_index] of
                       None \<Rightarrow> Inl LibraryFault
                     | Some out \<Rightarrow> Inr out)))"

text \<open>
  \<open>_is_pdf_content_type\<close>.  The two constants are ASCII, and apart from their own
  characters only \<open>A\<close> to \<open>Z\<close> have a lower case made of characters of the
  constants, so \<open>ct.lower()\<close> is in the tuple exactly when the ASCII lowering of
  \<open>ct\<close> is.
\<close>

definition is_pdf_content_type :: "str option \<Rightarrow> bool" where
  "is_pdf_content_type ct =
     (case ct of None \<Rightarrow> True
      | Some c \<Rightarrow> if c = [] then True
                 else map ascii_lower c \<in> {ascii ''application/pdf'', ascii ''application/octet-stream''})"

text \<open>
  The error responses: the \<open>HTTPException\<close>s of the source with status code and
  detail, the framework's answer to an exception that leaves the handler, and its
  answer to a query parameter that violates \<open>ge=1\<close>.
\<close>

datatype detail =
    Envie_um_PDF
  | PDF_invalido
  | Nao_foi_possivel_extrair_os_campos
  | Pagina_nao_encontrada
  | Falha_ao_processar_PDF

datatype http_error =
    HTTPException nat detail
  | Unhandled exn
  | Validation_Error

record 'f page_result = "'f fields" +
  page :: nat
  page_pdf_base64 :: str

text \<open>
  \<open>page_to_pdf_bytes\<close> above: the constructor's failure is pypdf's own exception,
  a page tree that cannot be read is a fault of the library, the check of the index
  raises \<open>IndexError\<close>, and the writer holds the requested page alone when it
  writes.

  One round of the loop of \<open>extract\<close>: the text of page \<open>i\<close> (\<open>""\<close> when
  \<open>extract_text\<close> raises or returns nothing), the Base64 text of the page's own
  document (\<open>""\<close> when \<open>page_to_pdf_bytes\<close> raises), and the entry appended.
\<close>

definition page_text :: "('p, 'f) env \<Rightarrow> bytes \<Rightarrow> nat \<Rightarrow> str" where
  "page_text E data i =
     (case extract_text E data i of None \<Rightarrow> [] | Some t \<Rightarrow> if t = [] then [] else t)"

definition page_pdf_b64 :: "('p, 'f) env \<Rightarrow> bytes \<Rightarrow> nat \<Rightarrow> str" where
  "page_pdf_b64 E data i =
     (case page_to_pdf_bytes E data (int i) of Inl _ \<Rightarrow> []
      | Inr page_pdf \<Rightarrow> b64encode E page_pdf)"

definition page_entry :: "('p, 'f) env \<Rightarrow> bytes \<Rightarrow> nat \<Rightarrow> exn + 'f page_result" where
  "page_entry E data i =
     (case extract_fields_from_text E (page_text E data i) of Inl e \<Rightarrow> Inl e
      | Inr fs \<Rightarrow>
          Inr \<lparr>nome = nome fs, cpf = cpf fs, valor_liquido = valor_liquido fs,
               page = i + 1, page_pdf_base64 = page_pdf_b64 E data i\<rparr>)"

fun pages_loop ::
  "('p, 'f) env \<Rightarrow> bytes \<Rightarrow> nat list \<Rightarrow> 'f page_result list \<Rightarrow> exn + 'f page_result list" where
  "pages_loop E data [] results = Inr results"
| "pages_loop E data (i # is) results =
     (case page_entry E data i of Inl e \<Rightarrow> Inl e
      | Inr r \<Rightarrow> pages_loop E data is (results @ [r]))"

text \<open>
  \<open>JSONResponse(content)\<close> encodes the content at once, with
  \<open>json.dumps(..., ensure_ascii=False, allow_nan=False)\<close> and then UTF-8: it raises
  \<open>ValueError\<close> for a number that is not finite and (the subclass
  \<open>UnicodeEncodeError\<close>) for a string that holds a surrogate.
\<close>

definition surrogate :: "nat \<Rightarrow> bool" where
  "surrogate c \<longleftrightarrow> 55296 \<le> c \<and> c \<le> 57343"

definition encodable :: "('p, 'f) env \<Rightarrow> 'f page_result \<Rightarrow> bool" where
  "encodable E r \<longleftrightarrow>
     (case valor_liquido r of None \<Rightarrow> True | Some v \<Rightarrow> isfinite E v) \<and>
     \<not> list_ex surrogate (nome r) \<and> \<not> list_ex surrogate (cpf r) \<and>
     \<not> list_ex surrogate (page_pdf_base64 r)"

definition JSONResponse :: "('p, 'f) env \<Rightarrow> 'f page_result list \<Rightarrow> exn + 'f page_result list" where
  "JSONResponse E content = (if list_all (encodable E) content then Inr content else Inl ValueError)"

text \<open>
  The test before the \<open>raise\<close> of status 422, and the two handlers.  In \<open>extract\<close>
  the constructor of the reader stands in a \<open>try\<close>, \<open>len(reader.pages)\<close> after it
  does not; the result is the list that \<open>JSONResponse\<close> has encoded.
  \<open>extract_single_page\<close> returns the bytes that it hands to \<open>StreamingResponse\<close>;
  the check \<open>ge=1\<close> of the query parameter comes before the body of the handler.
\<close>

definition all_empty :: "'f page_result list \<Rightarrow> bool" where
  "all_empty results = list_all (\<lambda>r. nome r = [] \<and> cpf r = [] \<and> valor_liquido r = None) results"

definition "extract" :: "('p, 'f) env \<Rightarrow> str option \<Rightarrow> bytes \<Rightarrow> http_error + 'f page_result list" where
  "extract E content_type data =
     (if \<not> is_pdf_content_type content_type then Inl (HTTPException 400 Envie_um_PDF)
      else (case PdfReader E data of None \<Rightarrow> Inl (HTTPException 400 PDF_invalido)
            | Some reader \<Rightarrow>
                (case reader_pages reader of None \<Rightarrow> Inl (Unhandled LibraryFault)
                 | Some pages \<Rightarrow>
                     (case pages_loop E data [0..<length pages] [] of Inl e \<Rightarrow> Inl (Unhandled e)
                      | Inr results \<Rightarrow>
                          if all_empty results
                          then Inl (HTTPException 422 Nao_foi_possivel_extrair_os_campos)
                          else (case JSONResponse E results of Inl e \<Rightarrow> Inl (Unhandled e)
                                | Inr content \<Rightarrow> Inr content)))))"

definition extract_single_page ::
  "('p, 'f) env \<Rightarrow> int \<Rightarrow> str option \<Rightarrow> bytes \<Rightarrow> http_error + bytes" where
  "extract_single_page E index content_type data =
     (if index < 1 then Inl Validation_Error
      else if \<not> is_pdf_content_type content_type then Inl (HTTPException 400 Envie_um_PDF)
      else (case page_to_pdf_bytes E data (index - 1) of
              Inl IndexError \<Rightarrow> Inl (HTTPException 404 Pagina_nao_encontrada)
            | Inl _ \<Rightarrow> Inl (HTTPException 400 Falha_ao_processar_PDF)
            | Inr page_pdf \<Rightarrow> Inr page_pdf))"

section \<open>Auxiliary notions\<close>

text \<open>
  \<open>captures r\<close>: every way to match \<open>r\<close> sets group 1.  \<open>field u r text\<close>: the trimmed
  capture of the first match of \<open>r\<close> in \<open>text\<close> under \<open>re.I\<close>, empty without a match.
  \<open>entry E data i\<close>: the dictionary that the loop of \<open>extract\<close> appends for page \<open>i\<close>.
\<close>

definition captures :: "(nat \<Rightarrow> nat option) \<Rightarrow> bool \<Rightarrow> regex \<Rightarrow> bool" where
  "captures u ic r \<longleftrightarrow> (\<forall>st. \<forall>x \<in> set (run u ic r st). snd x \<noteq> None)"

definition field :: "(nat \<Rightarrow> nat option) \<Rightarrow> regex \<Rightarrow> str \<Rightarrow> str" where
  "field u r text = (case search u True r text of Some (Some g) \<Rightarrow> strip g | _ \<Rightarrow> [])"

definition entry :: "('p, 'f) env \<Rightarrow> bytes \<Rightarrow> nat \<Rightarrow> 'f page_result" where
  "entry E data i =
     \<lparr>nome = field (ucd E) nome_re (page_text E data i),
      cpf = field (ucd E) cpf_re (page_text E data i),
      valor_liquido = to_number_br (float E) (Some (field (ucd E) liq_re (page_text E data i))),
      page = i + 1,
      page_pdf_base64 = page_pdf_b64 E data i\<rparr>"

text \<open>
  The text of a page whose net salary has 400 digits: \<open>SAL\<close>U+00C1\<open>RIO L\<close>U+00CD\<open>QUIDO R$\<close>,
  a blank and 400 times the digit 9.
\<close>

definition huge_text :: str where
  "huge_text = ascii ''SAL'' @ [193] @ ascii ''RIO L'' @ [205] @ ascii ''QUIDO R$ '' @ replicate 400 57"

text \<open>
  A small instance of the collaborators, on which the theorems are exercised.  A
  document is the byte 37 followed by one byte per page, and a page object is its byte;
  after the byte 38 the reader is constructed and its page tree cannot be read; any
  other first byte is refused by the constructor.  Page 0 has no readable text, page 1
  reads \<open>CPF: 1\<close>, page 3 carries a net salary, page 4 the net salary of 400 digits,
  every other page is blank, and page 255 cannot be written.  \<open>float\<close> is the model
  of the interpreter's, with no decimal digits beyond ASCII.
\<close>

definition toy_reader :: "bytes \<Rightarrow> 8 word reader option" where
  "toy_reader b =
     (case b of [] \<Rightarrow> None
      | m # ps \<Rightarrow> if m = 37 then Some (Reader (Some ps))
                 else if m = 38 then Some (Reader None)
                 else None)"

definition toy_writer :: "8 word list \<Rightarrow> bytes option" where
  "toy_writer ps = (if 255 \<in> set ps then None else Some (37 # ps))"

definition toy_text :: "bytes \<Rightarrow> nat \<Rightarrow> str option" where
  "toy_text b i =
     (case b of [] \<Rightarrow> None
      | m # ps \<Rightarrow>
          if m = 37 \<and> i < length ps
          then (if ps ! i = 0 then None
                else if ps ! i = 1 then Some (ascii ''CPF: 1'')
                else if ps ! i = 3 then Some (ascii ''Sal'' @ [225] @ ascii ''rio l'' @ [237] @ ascii ''quido R$ 1,5'')
                else if ps ! i = 4 then Some huge_text
                else Some [])
          else None)"

definition toy_env :: "(8 word, pyfloat) env" where
  "toy_env =
     \<lparr>ucd = (\<lambda>c. None), float = cpython_float (\<lambda>c. None), isfinite = pyfloat_isfinite,
      PdfReader = toy_reader, PdfWriter_write = toy_writer, extract_text = toy_text,
      b64encode = map unat\<rparr>"

text \<open>Upper case of the letters \<open>a\<close> to \<open>z\<close>, to state that the searches ignore case.\<close>

definition ascii_upper :: "nat \<Rightarrow> nat" where
  "ascii_upper c = (if 97 \<le> c \<and> c \<le> 122 then c - 32 else c)"

text \<open>A state of the matcher with text and capture in upper case.\<close>

definition up_state :: "str \<times> str option \<Rightarrow> str \<times> str option" where
  "up_state st = (map ascii_upper (fst st), map_option (map ascii_upper) (snd st))"

section \<open>The patterns always capture\<close>

lemma captures_Group: "captures u ic (Group r)"
  by (auto simp: captures_def)

lemma captures_Seq: "captures u ic r2 \<Longrightarrow> captures u ic (Seq r1 r2)"
  by (auto simp: captures_def)

lemma captures_head: "captures u ic r \<Longrightarrow> run u ic r st = x # xs \<Longrightarrow> snd x \<noteq> None"
  unfolding captures_def by (metis list.set_intros(1))

lemma search_captures: "captures u ic r \<Longrightarrow> search u ic r s = Some g \<Longrightarrow> g \<noteq> None"
proof (induction s)
  case Nil
  then show ?case by (auto split: list.splits dest: captures_head)
next
  case (Cons c cs)
  then show ?case by (auto split: list.splits dest: captures_head)
qed

lemma captures_cpf: "captures u ic cpf_re"
  unfolding cpf_re_def by (intro captures_Seq captures_Group)

lemma captures_nome: "captures u ic nome_re"
  unfolding nome_re_def by (intro captures_Seq captures_Group)

lemma captures_liq: "captures u ic liq_re"
  unfolding liq_re_def by (intro captures_Seq captures_Group)

lemma group1_strip_field:
  "captures u True r \<Longrightarrow> group1_strip (search u True r text) = Inr (field u r text)"
  by (auto simp: group1_strip_def field_def split: option.splits dest: search_captures)

lemma extract_fields_from_text_eq:
  "extract_fields_from_text E text =
     Inr \<lparr>nome = field (ucd E) nome_re text, cpf = field (ucd E) cpf_re text,
          valor_liquido = to_number_br (float E) (Some (field (ucd E) liq_re text))\<rparr>"
  by (simp add: extract_fields_from_text_def group1_strip_field
        captures_cpf captures_nome captures_liq)

section \<open>The loop of \<open>extract\<close>\<close>

lemma page_entry_eq: "page_entry E data i = Inr (entry E data i)"
  by (simp add: page_entry_def entry_def extract_fields_from_text_eq)

lemma pages_loop_eq: "pages_loop E data is acc = Inr (acc @ map (entry E data) is)"
  by (induction "is" arbitrary: acc) (simp_all add: page_entry_eq)

lemma extract_accepted:
  assumes "is_pdf_content_type ct" and "PdfReader E data = Some (Reader (Some pages))"
  shows "extract E ct data =
     (if all_empty (map (entry E data) [0..<length pages])
      then Inl (HTTPException 422 Nao_foi_possivel_extrair_os_campos)
      else if list_all (encodable E) (map (entry E data) [0..<length pages])
      then Inr (map (entry E data) [0..<length pages])
      else Inl (Unhandled ValueError))"
  using assms by (simp add: extract_def pages_loop_eq JSONResponse_def)

lemma extract_unreadable_pages:
  assumes "is_pdf_content_type ct" and "PdfReader E data = Some (Reader None)"
  shows "extract E ct data = Inl (Unhandled LibraryFault)"
  using assms by (simp add: extract_def)

lemma extract_Inr_D:
  assumes "extract E ct data = Inr results"
  shows "\<exists>pages. PdfReader E data = Some (Reader (Some pages)) \<and>
           results = map (entry E data) [0..<length pages]"
proof (cases "PdfReader E data")
  case None
  with assms show ?thesis by (simp add: extract_def split: if_splits)
next
  case (Some reader)
  obtain ps where r: "reader = Reader ps" by (cases reader)
  show ?thesis
  proof (cases ps)
    case None
    with assms Some r show ?thesis by (simp add: extract_def split: if_splits)
  next
    case (Some pages)
    with assms \<open>PdfReader E data = Some reader\<close> r show ?thesis
      by (simp add: extract_def pages_loop_eq JSONResponse_def split: if_splits)
  qed
qed

lemma map_page_entry: "map page (map (entry E data) [0..<n]) = [1..<Suc n]"
  by (induction n) (simp_all add: entry_def)

text \<open>Evaluation on constant texts.\<close>

lemmas regex_eval =
  cpf_re_def nome_re_def liq_re_def lit_def ascii_def isdecimal_def todecimal_def
  isspace_def re_lower_def field_def strip_def

lemmas float_eval =
  to_number_br_def replace_def ascii_def cpython_float_def ascii_digit_def
  ascii_space_def inf_or_nan_def sign_def ascii_lower_def strtod_def exponent_def
  digits_value_def scale10_def

lemma field_empty: "field u cpf_re [] = []" "field u nome_re [] = []" "field u liq_re [] = []"
  by (simp_all add: regex_eval)

lemma toy_env_sel:
  "ucd toy_env = (\<lambda>c. None)" "float toy_env = cpython_float (\<lambda>c. None)"
  "isfinite toy_env = pyfloat_isfinite"
  "PdfReader toy_env = toy_reader" "PdfWriter_write toy_env = toy_writer"
  "extract_text toy_env = toy_text" "b64encode toy_env = map unat"
  by (simp_all add: toy_env_def)

lemmas toy_eval =
  entry_def page_text_def page_pdf_b64_def page_to_pdf_bytes_def toy_env_sel
  toy_text_def toy_reader_def toy_writer_def

lemma accepts_missing_content_type: "is_pdf_content_type None"
  by (simp add: is_pdf_content_type_def)

section \<open>The report of the bulk flow\<close>

text \<open>
  C10.  For a document that the reader accepts and that has no page, the loop of
  \<open>extract\<close> leaves the list of results empty, the test \<open>all(...)\<close> over the empty
  list holds, and the request fails with status 422 (the spec's EmptyExtraction).
\<close>

theorem extract_zero_pages:
  assumes "is_pdf_content_type ct" and "PdfReader E data = Some (Reader (Some []))"
  shows "pages_loop E data [0..<0] [] = Inr [] \<and>
         extract E ct data = Inl (HTTPException 422 Nao_foi_possivel_extrair_os_campos)"
  using assms by (simp add: extract_def all_empty_def)

theorem extract_zero_pages_witness:
  "is_pdf_content_type None \<and> PdfReader toy_env [37] = Some (Reader (Some [])) \<and>
   pages_loop toy_env [37] [0..<0] [] = Inr [] \<and>
   extract toy_env None [37] = Inl (HTTPException 422 Nao_foi_possivel_extrair_os_campos)"
proof -
  have b: "PdfReader toy_env [37] = Some (Reader (Some []))"
    by (simp add: toy_env_sel toy_reader_def)
  from extract_zero_pages [OF accepts_missing_content_type b] accepts_missing_content_type b
  show ?thesis by simp
qed

lemma toy_entry_21_0:
  "entry toy_env [37, 2, 1] 0 =
     \<lparr>nome = [], cpf = [], valor_liquido = None, page = 1, page_pdf_base64 = [37, 2]\<rparr>"
  by (simp add: toy_eval regex_eval float_eval)

lemma toy_entry_21_1:
  "entry toy_env [37, 2, 1] (Suc 0) =
     \<lparr>nome = [], cpf = [49], valor_liquido = None, page = 2, page_pdf_base64 = [37, 1]\<rparr>"
  by (simp add: toy_eval regex_eval float_eval)

lemma toy_reader_21: "PdfReader toy_env [37, 2, 1] = Some (Reader (Some [2, 1]))"
  by (simp add: toy_env_sel toy_reader_def)

lemma toy_extract_21:
  "extract toy_env None [37, 2, 1] =
     Inr [\<lparr>nome = [], cpf = [], valor_liquido = None, page = 1, page_pdf_base64 = [37, 2]\<rparr>,
          \<lparr>nome = [], cpf = [49], valor_liquido = None, page = 2, page_pdf_base64 = [37, 1]\<rparr>]"
  by (simp add: extract_accepted [OF accepts_missing_content_type toy_reader_21] all_empty_def
        encodable_def surrogate_def toy_entry_21_0 toy_entry_21_1)

text \<open>
  C2.  Whenever \<open>extract\<close> returns a report, the reader has accepted the document,
  the report has one entry per page of the document, and the \<open>page\<close> values of the
  entries are 1, 2, ... up to the number of pages, in strictly ascending order.
\<close>

theorem extract_report_pages:
  assumes "extract E ct data = Inr results"
  shows "\<exists>pages. PdfReader E data = Some (Reader (Some pages)) \<and> length results = length pages \<and>
           map page results = [1..<Suc (length pages)] \<and> sorted_wrt (<) (map page results)"
proof -
  from extract_Inr_D [OF assms] obtain pages
    where p: "PdfReader E data = Some (Reader (Some pages))"
      and r: "results = map (entry E data) [0..<length pages]"
    by blast
  have "map page results = [1..<Suc (length pages)]"
    unfolding r by (rule map_page_entry)
  moreover have "sorted_wrt (<) [1..<Suc (length pages)]"
    by (rule sorted_wrt_upt)
  ultimately show ?thesis using p r by simp
qed

theorem extract_report_pages_witness:
  "\<exists>results pages. extract toy_env None [37, 2, 1] = Inr results \<and>
     PdfReader toy_env [37, 2, 1] = Some (Reader (Some pages)) \<and> length pages = 2 \<and>
     length results = length pages \<and>
     map page results = [1..<Suc (length pages)] \<and> sorted_wrt (<) (map page results)"
  using extract_report_pages [OF toy_extract_21] toy_extract_21 toy_reader_21 by auto

text \<open>
  What the loop does with a page that fails, and what the test before the 422 decides.
  The loop ends with one entry for every page index, entry \<open>i\<close> carrying
  \<open>page = i + 1\<close>; a page whose \<open>extract_text\<close> raises has the three fields at their
  defaults, a page whose \<open>page_to_pdf_bytes\<close> raises has an empty
  \<open>page_pdf_base64\<close>.  The request fails with 422 exactly when every entry has
  \<open>nome\<close> and \<open>cpf\<close> empty and \<open>valor_liquido\<close> \<open>None\<close>; otherwise the list
  goes to \<open>JSONResponse\<close>.
\<close>

lemma page_text_failed: "extract_text E data i = None \<Longrightarrow> page_text E data i = []"
  by (simp add: page_text_def)

lemma page_pdf_b64_failed: "page_to_pdf_bytes E data (int i) = Inl e \<Longrightarrow> page_pdf_b64 E data i = []"
  by (simp add: page_pdf_b64_def)

lemma entry_text_failed:
  assumes "extract_text E data i = None"
  shows "nome (entry E data i) = []" "cpf (entry E data i) = []" "valor_liquido (entry E data i) = None"
  using assms by (simp_all add: entry_def page_text_failed field_empty to_number_br_def)

lemma pages_loop_degrades:
  assumes "pages_loop E data [0..<n] [] = Inr results" and "i < n"
  shows "length results = n" and "page (results ! i) = i + 1"
    and "extract_text E data i = None \<Longrightarrow>
           nome (results ! i) = [] \<and> cpf (results ! i) = [] \<and> valor_liquido (results ! i) = None"
    and "page_to_pdf_bytes E data (int i) = Inl e \<Longrightarrow> page_pdf_base64 (results ! i) = []"
proof -
  from assms(1) have r: "results = map (entry E data) [0..<n]"
    by (simp add: pages_loop_eq)
  show "length results = n" by (simp add: r)
  from assms(2) show "page (results ! i) = i + 1" by (simp add: r entry_def)
  from assms(2) show "extract_text E data i = None \<Longrightarrow>
           nome (results ! i) = [] \<and> cpf (results ! i) = [] \<and> valor_liquido (results ! i) = None"
    by (simp add: r entry_text_failed)
  from assms(2) show "page_to_pdf_bytes E data (int i) = Inl e \<Longrightarrow> page_pdf_base64 (results ! i) = []"
    by (simp add: r entry_def page_pdf_b64_failed)
qed

lemma extract_422_iff:
  assumes "is_pdf_content_type ct" and "PdfReader E data = Some (Reader (Some pages))"
    and "pages_loop E data [0..<length pages] [] = Inr results"
  shows "extract E ct data = Inl (HTTPException 422 Nao_foi_possivel_extrair_os_campos) \<longleftrightarrow>
           (\<forall>r \<in> set results. nome r = [] \<and> cpf r = [] \<and> valor_liquido r = None)"
proof -
  from assms(3) have r: "results = map (entry E data) [0..<length pages]"
    by (simp add: pages_loop_eq)
  have "all_empty results \<longleftrightarrow> (\<forall>r \<in> set results. nome r = [] \<and> cpf r = [] \<and> valor_liquido r = None)"
    unfolding all_empty_def list_all_iff ..
  then show ?thesis
    unfolding extract_accepted [OF assms(1,2)] r [symmetric] by simp
qed

section \<open>A net salary that \<open>float\<close> reads as an infinity\<close>

lemma run_Plus_all:
  assumes "s \<noteq> []" and "\<forall>c \<in> set s. atom_ok u ic a c"
  shows "\<exists>xs. run u ic (Plus a) (s, g) = ([], g) # xs"
proof -
  from assms(2) have t: "takeWhile (atom_ok u ic a) s = s"
    by (simp add: takeWhile_eq_all_conv)
  from assms(1) have "[1..<Suc (length s)] = [1..<length s] @ [length s]"
    by (cases s) simp_all
  then show ?thesis by (simp add: t)
qed

lemma run_Group_Plus_all:
  assumes "s \<noteq> []" and "\<forall>c \<in> set s. atom_ok u ic a c"
  shows "\<exists>xs. run u ic (Group (Plus a)) (s, g) = ([], Some s) # xs"
proof -
  from run_Plus_all [OF assms] obtain xs where "run u ic (Plus a) (s, g) = ([], g) # xs" ..
  then show ?thesis by (simp del: run.simps(4))
qed

lemma run_liq_digits:
  assumes "ds \<noteq> []" and "\<forall>c \<in> set ds. 48 \<le> c \<and> c \<le> 57"
  shows "\<exists>xs. run u True liq_re
     (83 # 65 # 76 # 193 # 82 # 73 # 79 # 32 # 76 # 205 # 81 # 85 # 73 # 68 # 79 # 32 # 82 # 36 # 32 # ds,
      None) = ([], Some ds) # xs"
proof -
  have d: "\<forall>c \<in> set ds. atom_ok u True (In [Digit, Chr 46, Chr 44]) c"
    using assms(2) by (auto simp: isdecimal_def todecimal_def)
  from run_Group_Plus_all [OF assms(1) d] obtain xs where
    g: "run u True (Group (Plus (In [Digit, Chr 46, Chr 44]))) (ds, None) = ([], Some ds) # xs" ..
  have sp: "takeWhile (atom_ok u True (Is Space)) ds = []"
    using assms by (cases ds) (auto simp: isspace_def)
  show ?thesis
    by (simp add: liq_re_def lit_def re_lower_def isspace_def g sp del: run.simps(4) run.simps(8))
qed

lemma huge_text_eq:
  "huge_text =
     83 # 65 # 76 # 193 # 82 # 73 # 79 # 32 # 76 # 205 # 81 # 85 # 73 # 68 # 79 # 32 # 82 # 36 # 32 #
     replicate 400 57"
  by (simp add: huge_text_def ascii_def)

lemma nines: "replicate 400 57 \<noteq> []" "\<forall>c \<in> set (replicate 400 (57::nat)). 48 \<le> c \<and> c \<le> 57"
  by simp_all

lemma search_liq_huge: "search u True liq_re huge_text = Some (Some (replicate 400 57))"
proof -
  from run_liq_digits [OF nines, of u] obtain xs where
    "run u True liq_re
     (83 # 65 # 76 # 193 # 82 # 73 # 79 # 32 # 76 # 205 # 81 # 85 # 73 # 68 # 79 # 32 # 82 # 36 # 32 #
      replicate 400 57, None) = ([], Some (replicate 400 57)) # xs" ..
  then show ?thesis unfolding huge_text_eq by (simp del: run.simps)
qed

lemma strip_id:
  assumes "s \<noteq> []" and "\<not> isspace (hd s)" and "\<not> isspace (last s)"
  shows "strip s = s"
proof -
  from assms(1,2) have a: "dropWhile isspace s = s"
    by (simp add: dropWhile_eq_self_iff)
  from assms(1,3) have "dropWhile isspace (rev s) = rev s"
    by (simp add: dropWhile_eq_self_iff hd_rev)
  with a show ?thesis by (simp add: strip_def)
qed

lemma strip_nines: "0 < k \<Longrightarrow> strip (replicate k 57) = replicate k 57"
  by (rule strip_id) (simp_all add: isspace_def)

lemma field_liq_huge: "field u liq_re huge_text = replicate 400 57"
  by (simp add: field_def search_liq_huge strip_nines)

lemma search_first_atom_None:
  assumes "\<And>s g. s = [] \<or> \<not> atom_ok u ic a (hd s) \<Longrightarrow> run u ic r (s, g) = []"
    and "\<forall>c \<in> set s. \<not> atom_ok u ic a c"
  shows "search u ic r s = None"
  using assms(2) by (induction s) (simp_all add: assms(1))

lemma run_nome_first:
  "s = [] \<or> \<not> atom_ok u True (Is (Chr 78)) (hd s) \<Longrightarrow> run u True nome_re (s, g) = []"
  by (cases s) (simp_all add: nome_re_def lit_def)

lemma run_cpf_first:
  "s = [] \<or> \<not> atom_ok u True (Is (Chr 67)) (hd s) \<Longrightarrow> run u True cpf_re (s, g) = []"
  by (cases s) (simp_all add: cpf_re_def lit_def)

lemma field_nome_cpf_huge: "field u nome_re huge_text = []" "field u cpf_re huge_text = []"
proof -
  have "search u True nome_re huge_text = None"
  proof (rule search_first_atom_None [where a = "Is (Chr 78)"])
    fix s g
    assume "s = [] \<or> \<not> atom_ok u True (Is (Chr 78)) (hd s)"
    then show "run u True nome_re (s, g) = []" by (rule run_nome_first)
  next
    show "\<forall>c \<in> set huge_text. \<not> atom_ok u True (Is (Chr 78)) c"
      by (simp add: huge_text_eq re_lower_def)
  qed
  then show "field u nome_re huge_text = []" by (simp add: field_def)
  have "search u True cpf_re huge_text = None"
  proof (rule search_first_atom_None [where a = "Is (Chr 67)"])
    fix s g
    assume "s = [] \<or> \<not> atom_ok u True (Is (Chr 67)) (hd s)"
    then show "run u True cpf_re (s, g) = []" by (rule run_cpf_first)
  next
    show "\<forall>c \<in> set huge_text. \<not> atom_ok u True (Is (Chr 67)) c"
      by (simp add: huge_text_eq re_lower_def)
  qed
  then show "field u cpf_re huge_text = []" by (simp add: field_def)
qed

lemma replace_absent: "old \<notin> set s \<Longrightarrow> replace old new s = s"
  by (induction s) (auto simp: replace_def)

lemma underscores_digits:
  "\<forall>c \<in> set ds. 48 \<le> c \<and> c \<le> 57 \<Longrightarrow> prev \<noteq> 95 \<Longrightarrow> underscores prev ds = Some ds"
  by (induction ds arbitrary: prev) (auto simp: ascii_digit_def)

lemma cpython_float_digits:
  assumes "ds \<noteq> []" and "\<forall>c \<in> set ds. 48 \<le> c \<and> c \<le> 57"
  shows "cpython_float u ds = Some (Finite (of_nat (digits_value ds)))"
proof -
  obtain d ds' where c: "ds = d # ds'" using assms(1) by (cases ds) auto
  with assms(2) have d: "48 \<le> d" "d \<le> 57" and r: "\<forall>c \<in> set ds'. 48 \<le> c \<and> c \<le> 57"
    by simp_all
  have a: "list_all (\<lambda>c. c < 128) ds"
    using assms(2) by (auto simp: list_all_iff)
  have b: "underscores 0 ds = Some ds"
    by (rule underscores_digits [OF assms(2)]) simp
  have t: "takeWhile ascii_digit ds' = ds'" "dropWhile ascii_digit ds' = []"
    using r by (simp_all add: takeWhile_eq_all_conv ascii_digit_def)
  have v: "dropWhile ascii_space ds = ds"
    using d by (simp add: c ascii_space_def)
  have l: "\<not> ascii_space (last ds)"
    using assms by (auto simp: ascii_space_def dest!: last_in_set)
  have "dropWhile ascii_space (rev ds) = rev ds"
    using assms(1) l by (simp add: dropWhile_eq_self_iff hd_rev)
  then have w: "rev (dropWhile ascii_space (rev ds)) = ds" by simp
  have i: "inf_or_nan ds = None"
    using d by (auto simp: inf_or_nan_def sign_def ascii_lower_def ascii_def c)
  have s: "strtod ds = Some (of_nat (digits_value ds))"
    using d by (simp add: strtod_def sign_def c t ascii_digit_def exponent_def scale10_def)
  show ?thesis
    using assms(1) by (simp add: cpython_float_def a b v w i s)
qed

lemma foldl_nines:
  "foldl (\<lambda>n d. 10 * n + (d - 48)) (a::nat) (replicate k 57) + 1 = (a + 1) * 10 ^ k"
  by (induction k arbitrary: a) (simp_all add: algebra_simps)

lemma digits_value_nines: "digits_value (replicate k 57) + 1 = 10 ^ k"
  using foldl_nines [of 0 k] by (simp add: digits_value_def)

lemma float_huge:
  "to_number_br (cpython_float u) (Some (replicate 400 57)) = Some (Finite (10 ^ 400 - 1))"
proof -
  have "of_nat (digits_value (replicate 400 57) + 1) = (10 ^ 400 :: rat)"
    by (simp only: digits_value_nines of_nat_power of_nat_numeral)
  then have "(of_nat (digits_value (replicate 400 57)) :: rat) = 10 ^ 400 - 1"
    by simp
  moreover have "replace 44 [46] (replace 46 [] (replicate 400 57)) = replicate 400 57"
    by (simp add: replace_absent)
  ultimately show ?thesis
    using nines(1) by (simp add: to_number_br_def cpython_float_digits [OF nines])
qed

lemma huge_not_finite: "\<not> pyfloat_isfinite (Finite (10 ^ 400 - 1))"
proof -
  have "(2::rat) ^ 64 \<le> 10 ^ 20" by simp
  then have "((2::rat) ^ 64) ^ 16 \<le> (10 ^ 20) ^ 16" by (rule power_mono) simp
  then have a: "(2::rat) ^ 1024 \<le> 10 ^ 320" by (simp add: power_mult [symmetric])
  have "(10::rat) ^ 320 \<le> 10 ^ 400 - 10 ^ 399"
  proof -
    have "(10::rat) ^ 400 = 10 * 10 ^ 399" by (simp add: power_Suc [symmetric] del: power_Suc)
    moreover have "(10::rat) ^ 320 \<le> 10 ^ 399" by (rule power_increasing) simp_all
    moreover have "(0::rat) \<le> 10 ^ 399" by simp
    ultimately show ?thesis by linarith
  qed
  moreover have "(1::rat) \<le> 10 ^ 399" by (rule one_le_power) simp
  moreover have "(0::rat) \<le> 2 ^ 970" by simp
  ultimately have "(2::rat) ^ 1024 - 2 ^ 970 \<le> 10 ^ 400 - 1" using a by linarith
  moreover have "(0::rat) \<le> 10 ^ 400 - 1"
    using one_le_power [of "10::rat" 400] by simp
  ultimately show ?thesis by simp
qed

lemma entry_huge:
  assumes "page_text E data i = huge_text" and "float E = cpython_float u"
  shows "entry E data i =
     \<lparr>nome = [], cpf = [], valor_liquido = Some (Finite (10 ^ 400 - 1)), page = i + 1,
      page_pdf_base64 = page_pdf_b64 E data i\<rparr>"
  by (simp add: entry_def assms field_nome_cpf_huge field_liq_huge float_huge)

lemma toy_reader_4: "PdfReader toy_env [37, 4] = Some (Reader (Some [4]))"
  by (simp add: toy_env_sel toy_reader_def)

lemma toy_text_4: "extract_text toy_env [37, 4] 0 = Some huge_text"
  by (simp add: toy_env_sel toy_text_def)

lemma huge_text_not_empty: "huge_text \<noteq> []"
  by (simp add: huge_text_eq)

lemma toy_entry_4:
  "entry toy_env [37, 4] 0 =
     \<lparr>nome = [], cpf = [], valor_liquido = Some (Finite (10 ^ 400 - 1)), page = 1,
      page_pdf_base64 = [37, 4]\<rparr>"
proof -
  have t: "page_text toy_env [37, 4] 0 = huge_text"
    by (simp add: page_text_def toy_text_4 huge_text_not_empty)
  have b: "page_pdf_b64 toy_env [37, 4] 0 = [37, 4]"
    by (simp add: page_pdf_b64_def page_to_pdf_bytes_def toy_env_sel toy_reader_def toy_writer_def)
  show ?thesis
    by (simp add: entry_huge [OF t toy_env_sel(2)] b)
qed

text \<open>
  C1.  The claim fails on a document of one page whose text is \<open>huge_text\<close>.  The
  reader accepts it, the loop ends with the one entry of the page, whose
  \<open>valor_liquido\<close> is what \<open>float\<close> makes of 400 digits 9, a value that is not
  finite; the entry has a field that is not absent, so the test before the 422 fails,
  and \<open>JSONResponse\<close> raises \<open>ValueError\<close>, which nothing catches: the request
  neither fails with 422 nor returns the report.
\<close>

theorem extract_infinite_value_unhandled:
  "is_pdf_content_type None \<and>
   PdfReader toy_env [37, 4] = Some (Reader (Some [4])) \<and>
   extract_text toy_env [37, 4] 0 = Some huge_text \<and>
   pages_loop toy_env [37, 4] [0..<1] [] =
     Inr [\<lparr>nome = [], cpf = [], valor_liquido = Some (Finite (10 ^ 400 - 1)), page = 1,
           page_pdf_base64 = [37, 4]\<rparr>] \<and>
   \<not> isfinite toy_env (Finite (10 ^ 400 - 1)) \<and>
   extract toy_env None [37, 4] = Inl (Unhandled ValueError)"
proof (intro conjI)
  show "is_pdf_content_type None" by (rule accepts_missing_content_type)
  show "PdfReader toy_env [37, 4] = Some (Reader (Some [4]))" by (rule toy_reader_4)
  show "extract_text toy_env [37, 4] 0 = Some huge_text" by (rule toy_text_4)
  show "pages_loop toy_env [37, 4] [0..<1] [] =
     Inr [\<lparr>nome = [], cpf = [], valor_liquido = Some (Finite (10 ^ 400 - 1)), page = 1,
           page_pdf_base64 = [37, 4]\<rparr>]"
    by (simp add: pages_loop_eq toy_entry_4)
  show "\<not> isfinite toy_env (Finite (10 ^ 400 - 1))"
    unfolding toy_env_sel by (rule huge_not_finite)
  show "extract toy_env None [37, 4] = Inl (Unhandled ValueError)"
    using huge_not_finite
    by (simp add: extract_accepted [OF accepts_missing_content_type toy_reader_4] toy_entry_4
          all_empty_def encodable_def toy_env_sel(3) del: pyfloat_isfinite.simps)
qed

lemma toy_reader_0_4: "PdfReader toy_env [37, 0, 4] = Some (Reader (Some [0, 4]))"
  by (simp add: toy_env_sel toy_reader_def)

lemma toy_entry_0_4:
  "entry toy_env [37, 0, 4] 0 =
     \<lparr>nome = [], cpf = [], valor_liquido = None, page = 1, page_pdf_base64 = [37, 0]\<rparr>"
  "entry toy_env [37, 0, 4] (Suc 0) =
     \<lparr>nome = [], cpf = [], valor_liquido = Some (Finite (10 ^ 400 - 1)), page = 2,
      page_pdf_base64 = [37, 4]\<rparr>"
proof -
  show "entry toy_env [37, 0, 4] 0 =
     \<lparr>nome = [], cpf = [], valor_liquido = None, page = 1, page_pdf_base64 = [37, 0]\<rparr>"
    by (simp add: toy_eval regex_eval float_eval)
  have t: "page_text toy_env [37, 0, 4] (Suc 0) = huge_text"
    by (simp add: page_text_def toy_env_sel toy_text_def huge_text_not_empty)
  have b: "page_pdf_b64 toy_env [37, 0, 4] (Suc 0) = [37, 4]"
    by (simp add: page_pdf_b64_def page_to_pdf_bytes_def toy_env_sel toy_reader_def toy_writer_def)
  show "entry toy_env [37, 0, 4] (Suc 0) =
     \<lparr>nome = [], cpf = [], valor_liquido = Some (Finite (10 ^ 400 - 1)), page = 2,
      page_pdf_base64 = [37, 4]\<rparr>"
    by (simp add: entry_huge [OF t toy_env_sel(2)] b)
qed

text \<open>
  C3.  The claim fails where it says that only the two errors reach the caller.  In
  the document \<open>[37, 0, 4]\<close> the first page has no readable text and keeps its entry
  with the fields at their defaults, as the claim says; the second page is the one of
  \<open>huge_text\<close>, and the request ends with the \<open>ValueError\<close> of \<open>JSONResponse\<close>,
  which is neither the 400 of the reader nor the 422.  In the document \<open>[38]\<close> the
  constructor of the reader succeeds and \<open>len(reader.pages)\<close>, which stands outside
  the \<open>try\<close>, raises: the request ends with that exception.
\<close>

theorem extract_propagates_other_errors:
  "is_pdf_content_type None \<and>
   PdfReader toy_env [37, 0, 4] = Some (Reader (Some [0, 4])) \<and>
   extract_text toy_env [37, 0, 4] 0 = None \<and>
   pages_loop toy_env [37, 0, 4] [0..<2] [] =
     Inr [\<lparr>nome = [], cpf = [], valor_liquido = None, page = 1, page_pdf_base64 = [37, 0]\<rparr>,
          \<lparr>nome = [], cpf = [], valor_liquido = Some (Finite (10 ^ 400 - 1)), page = 2,
           page_pdf_base64 = [37, 4]\<rparr>] \<and>
   extract toy_env None [37, 0, 4] = Inl (Unhandled ValueError) \<and>
   PdfReader toy_env [38] = Some (Reader None) \<and>
   extract toy_env None [38] = Inl (Unhandled LibraryFault)"
proof (intro conjI)
  show "is_pdf_content_type None" by (rule accepts_missing_content_type)
  show "PdfReader toy_env [37, 0, 4] = Some (Reader (Some [0, 4]))" by (rule toy_reader_0_4)
  show "extract_text toy_env [37, 0, 4] 0 = None" by (simp add: toy_env_sel toy_text_def)
  have u: "[0..<2] = [0, Suc 0]" by (simp add: upt_rec)
  show "pages_loop toy_env [37, 0, 4] [0..<2] [] =
     Inr [\<lparr>nome = [], cpf = [], valor_liquido = None, page = 1, page_pdf_base64 = [37, 0]\<rparr>,
          \<lparr>nome = [], cpf = [], valor_liquido = Some (Finite (10 ^ 400 - 1)), page = 2,
           page_pdf_base64 = [37, 4]\<rparr>]"
    by (simp only: pages_loop_eq u list.map toy_entry_0_4 append_Nil)
  show "extract toy_env None [37, 0, 4] = Inl (Unhandled ValueError)"
    using huge_not_finite
    by (simp add: extract_accepted [OF accepts_missing_content_type toy_reader_0_4] toy_entry_0_4
          all_empty_def encodable_def toy_env_sel(3) del: pyfloat_isfinite.simps)
  show r: "PdfReader toy_env [38] = Some (Reader None)"
    by (simp add: toy_env_sel toy_reader_def)
  show "extract toy_env None [38] = Inl (Unhandled LibraryFault)"
    by (rule extract_unreadable_pages [OF accepts_missing_content_type r])
qed

section \<open>The page splitter\<close>

text \<open>
  C4.  When the reader accepts the bytes and the index is below 0 or not below the
  number of pages, \<open>page_to_pdf_bytes\<close> raises \<open>IndexError\<close>, which the single-page
  flow answers with 404 (the spec's PageOutOfRange).  When the constructor of the
  reader rejects the bytes, \<open>page_to_pdf_bytes\<close> lets its exception through whatever
  the index, which the single-page flow answers with 400, as the bulk flow does (the
  spec's InvalidDocument); when the constructor accepts the bytes and the page tree
  cannot be read, \<open>page_to_pdf_bytes\<close> lets that fault through, and the single-page
  flow answers with 400 again.  \<open>IndexError\<close> differs from the exception of the
  reader, and 404 from 400.
\<close>

theorem page_to_pdf_bytes_failures:
  "(PdfReader E data = Some (Reader (Some pages)) \<and> (i < 0 \<or> int (length pages) \<le> i) \<longrightarrow>
      page_to_pdf_bytes E data i = Inl IndexError \<and>
      (0 \<le> i \<and> is_pdf_content_type ct \<longrightarrow>
         extract_single_page E (i + 1) ct data = Inl (HTTPException 404 Pagina_nao_encontrada))) \<and>
   (PdfReader E data = None \<longrightarrow>
      page_to_pdf_bytes E data i = Inl PdfReadError \<and>
      (0 \<le> i \<and> is_pdf_content_type ct \<longrightarrow>
         extract_single_page E (i + 1) ct data = Inl (HTTPException 400 Falha_ao_processar_PDF)) \<and>
      (is_pdf_content_type ct \<longrightarrow> extract E ct data = Inl (HTTPException 400 PDF_invalido))) \<and>
   (PdfReader E data = Some (Reader None) \<longrightarrow>
      page_to_pdf_bytes E data i = Inl LibraryFault \<and>
      (0 \<le> i \<and> is_pdf_content_type ct \<longrightarrow>
         extract_single_page E (i + 1) ct data = Inl (HTTPException 400 Falha_ao_processar_PDF))) \<and>
   IndexError \<noteq> PdfReadError \<and>
   HTTPException 404 Pagina_nao_encontrada \<noteq> HTTPException 400 Falha_ao_processar_PDF"
  by (simp add: page_to_pdf_bytes_def extract_single_page_def extract_def)

theorem page_to_pdf_bytes_failures_witness:
  "PdfReader toy_env [37, 2, 1] = Some (Reader (Some [2, 1])) \<and> int (length [2::8 word, 1]) \<le> 2 \<and>
   is_pdf_content_type None \<and> PdfReader toy_env [1, 2, 3] = None \<and>
   PdfReader toy_env [38] = Some (Reader None) \<and>
   page_to_pdf_bytes toy_env [37, 2, 1] 2 = Inl IndexError \<and>
   extract_single_page toy_env 3 None [37, 2, 1] = Inl (HTTPException 404 Pagina_nao_encontrada) \<and>
   page_to_pdf_bytes toy_env [1, 2, 3] 2 = Inl PdfReadError \<and>
   extract_single_page toy_env 3 None [1, 2, 3] = Inl (HTTPException 400 Falha_ao_processar_PDF) \<and>
   extract toy_env None [1, 2, 3] = Inl (HTTPException 400 PDF_invalido) \<and>
   page_to_pdf_bytes toy_env [38] 2 = Inl LibraryFault \<and>
   extract_single_page toy_env 3 None [38] = Inl (HTTPException 400 Falha_ao_processar_PDF)"
proof -
  have a: "PdfReader toy_env [1, 2, 3] = None"
    by (simp add: toy_env_sel toy_reader_def)
  have b: "PdfReader toy_env [38] = Some (Reader None)"
    by (simp add: toy_env_sel toy_reader_def)
  from page_to_pdf_bytes_failures [of toy_env "[37, 2, 1]" "[2, 1]" 2 None]
    page_to_pdf_bytes_failures [of toy_env "[1, 2, 3]" "[]" 2 None]
    page_to_pdf_bytes_failures [of toy_env "[38]" "[]" 2 None]
    toy_reader_21 a b accepts_missing_content_type
  show ?thesis by simp
qed

text \<open>
  C5, as the claim stands.  The document \<open>[37, 255]\<close> is accepted by the reader and
  has one page, the index 0 is in range, and \<open>page_to_pdf_bytes\<close> fails: the writer
  raises on that page.
\<close>

theorem page_to_pdf_bytes_single_page_counterexample:
  "PdfReader toy_env [37, 255] = Some (Reader (Some [255])) \<and>
   (0::int) \<le> 0 \<and> (0::int) < int (length [255::8 word]) \<and>
   page_to_pdf_bytes toy_env [37, 255] 0 = Inl LibraryFault"
  by (simp add: page_to_pdf_bytes_def toy_env_sel toy_reader_def toy_writer_def)

text \<open>
  C5, amended.  For a document that the reader accepts and an index from 0 up to the
  number of pages (so the document has a page), \<open>page_to_pdf_bytes\<close> raises neither
  \<open>IndexError\<close> nor the exception of the reader: it hands a fresh writer the list of
  one page, the requested one, and returns exactly the bytes that the writer writes,
  or fails with the writer's fault when the writer raises.  The input bytes are a
  value and are not changed.
\<close>

theorem page_to_pdf_bytes_in_range:
  assumes "PdfReader E data = Some (Reader (Some pages))" and "0 \<le> i" and "i < int (length pages)"
  shows "page_to_pdf_bytes E data i =
           (case PdfWriter_write E [pages ! nat i] of None \<Rightarrow> Inl LibraryFault
            | Some out \<Rightarrow> Inr out) \<and>
         length [pages ! nat i] = 1 \<and>
         page_to_pdf_bytes E data i \<noteq> Inl IndexError \<and>
         page_to_pdf_bytes E data i \<noteq> Inl PdfReadError \<and>
         (\<forall>out. page_to_pdf_bytes E data i = Inr out \<longleftrightarrow> PdfWriter_write E [pages ! nat i] = Some out) \<and>
         (page_to_pdf_bytes E data i = Inl LibraryFault \<longleftrightarrow> PdfWriter_write E [pages ! nat i] = None)"
proof -
  from assms have e: "page_to_pdf_bytes E data i =
           (case PdfWriter_write E [pages ! nat i] of None \<Rightarrow> Inl LibraryFault
            | Some out \<Rightarrow> Inr out)"
    by (simp add: page_to_pdf_bytes_def)
  show ?thesis
    unfolding e by (simp split: option.splits)
qed

theorem page_to_pdf_bytes_in_range_witness:
  "PdfReader toy_env [37, 2, 1] = Some (Reader (Some [2, 1])) \<and> (0::int) \<le> 1 \<and>
   1 < int (length [2::8 word, 1]) \<and>
   PdfWriter_write toy_env [[2::8 word, 1] ! nat 1] = Some [37, 1] \<and>
   page_to_pdf_bytes toy_env [37, 2, 1] 1 = Inr [37, 1]"
proof -
  have i: "(0::int) \<le> 1" "1 < int (length [2::8 word, 1])" by simp_all
  have w: "PdfWriter_write toy_env [[2::8 word, 1] ! nat 1] = Some [37, 1]"
    by (simp add: toy_env_sel toy_writer_def)
  note T = page_to_pdf_bytes_in_range [OF toy_reader_21 i, THEN conjunct1]
  have "page_to_pdf_bytes toy_env [37, 2, 1] 1 = Inr [37, 1]"
    unfolding T w by simp
  with toy_reader_21 i w show ?thesis by (intro conjI)
qed

section \<open>The single-page flow\<close>

lemma page_to_pdf_bytes_cong:
  "page_to_pdf_bytes (E\<lparr>ucd := u, float := f, extract_text := t, b64encode := b\<rparr>) data i =
   page_to_pdf_bytes E data i"
  by (simp add: page_to_pdf_bytes_def split: option.splits reader.splits)

text \<open>
  C8.  For a page number \<open>n\<close> from 1 on and an accepted content type, the single-page
  flow returns bytes exactly when \<open>page_to_pdf_bytes\<close> returns them for the index
  \<open>n - 1\<close> on the same document, and they are the same bytes; it answers 404 exactly
  when that call raises \<open>IndexError\<close> and 400 exactly when it raises anything else.
  No field extraction takes part: the answer is the same whatever the Unicode table,
  \<open>float\<close>, \<open>extract_text\<close> and \<open>b64encode\<close> are.  The bytes returned are those
  whose Base64 text the bulk flow puts into the entry of that page.
\<close>

theorem extract_single_page_is_page_to_pdf_bytes:
  assumes "1 \<le> n" and "is_pdf_content_type ct"
  shows "(\<forall>out. page_to_pdf_bytes E data (n - 1) = Inr out \<longleftrightarrow> extract_single_page E n ct data = Inr out) \<and>
         (page_to_pdf_bytes E data (n - 1) = Inl IndexError \<longleftrightarrow>
            extract_single_page E n ct data = Inl (HTTPException 404 Pagina_nao_encontrada)) \<and>
         ((\<exists>e. page_to_pdf_bytes E data (n - 1) = Inl e \<and> e \<noteq> IndexError) \<longleftrightarrow>
            extract_single_page E n ct data = Inl (HTTPException 400 Falha_ao_processar_PDF)) \<and>
         extract_single_page (E\<lparr>ucd := u, float := f, extract_text := t, b64encode := b\<rparr>) n ct data =
           extract_single_page E n ct data \<and>
         (\<forall>out. extract_single_page E n ct data = Inr out \<longrightarrow>
            page_pdf_b64 E data (nat (n - 1)) = b64encode E out)"
proof (intro conjI allI impI)
  fix out
  show "page_to_pdf_bytes E data (n - 1) = Inr out \<longleftrightarrow> extract_single_page E n ct data = Inr out"
    using assms by (auto simp: extract_single_page_def split: sum.splits exn.splits)
next
  show "page_to_pdf_bytes E data (n - 1) = Inl IndexError \<longleftrightarrow>
            extract_single_page E n ct data = Inl (HTTPException 404 Pagina_nao_encontrada)"
    using assms by (auto simp: extract_single_page_def split: sum.splits exn.splits)
next
  show "(\<exists>e. page_to_pdf_bytes E data (n - 1) = Inl e \<and> e \<noteq> IndexError) \<longleftrightarrow>
            extract_single_page E n ct data = Inl (HTTPException 400 Falha_ao_processar_PDF)"
    using assms by (auto simp: extract_single_page_def split: sum.splits exn.splits)
next
  show "extract_single_page (E\<lparr>ucd := u, float := f, extract_text := t, b64encode := b\<rparr>) n ct data =
           extract_single_page E n ct data"
    by (simp add: extract_single_page_def page_to_pdf_bytes_cong)
next
  fix out assume "extract_single_page E n ct data = Inr out"
  with assms have "page_to_pdf_bytes E data (n - 1) = Inr out"
    by (auto simp: extract_single_page_def split: sum.splits exn.splits)
  with assms(1) show "page_pdf_b64 E data (nat (n - 1)) = b64encode E out"
    by (simp add: page_pdf_b64_def)
qed

lemma toy_reader_213: "PdfReader toy_env [37, 2, 1, 3] = Some (Reader (Some [2, 1, 3]))"
  by (simp add: toy_env_sel toy_reader_def)

theorem extract_single_page_is_page_to_pdf_bytes_witness:
  "(1::int) \<le> 1 \<and> is_pdf_content_type None \<and>
   PdfReader toy_env [37, 2, 1, 3] = Some (Reader (Some [2, 1, 3])) \<and>
   page_to_pdf_bytes toy_env [37, 2, 1, 3] 0 = Inr [37, 2] \<and>
   extract_single_page toy_env 1 None [37, 2, 1, 3] = Inr [37, 2]"
proof -
  have n: "(1::int) \<le> 1" by simp
  have s: "page_to_pdf_bytes toy_env [37, 2, 1, 3] (1 - 1) = Inr [37, 2]"
    by (simp add: toy_eval)
  note T = extract_single_page_is_page_to_pdf_bytes [OF n accepts_missing_content_type,
      of toy_env "[37, 2, 1, 3]", THEN conjunct1, THEN spec, of "[37, 2]", THEN iffD1, OF s]
  from T s n accepts_missing_content_type toy_reader_213 show ?thesis by simp
qed

section \<open>Fields of a page text\<close>

lemma replace_filter_map:
  "replace 44 [46] (replace 46 [] s) = map (\<lambda>c. if c = 44 then 46 else c) (filter (\<lambda>c. c \<noteq> 46) s)"
  by (induction s) (simp_all add: replace_def)

lemma isspace_upper: "isspace (ascii_upper c) = isspace c"
  unfolding isspace_def ascii_upper_def by (cases "97 \<le> c \<and> c \<le> 122") auto

lemma item_ok_upper: "item_ok u True i (ascii_upper c) = item_ok u True i c"
proof (cases i)
  case (Chr x)
  have "re_lower (ascii_upper c) = re_lower c"
    unfolding re_lower_def ascii_upper_def by (cases "97 \<le> c \<and> c \<le> 122") auto
  with Chr show ?thesis by simp
next
  case Digit
  have "todecimal u (ascii_upper c) = None \<longleftrightarrow> todecimal u c = None"
    unfolding todecimal_def ascii_upper_def by (cases "97 \<le> c \<and> c \<le> 122") auto
  with Digit show ?thesis by (simp add: isdecimal_def)
next
  case Space
  with Space show ?thesis by (simp add: isspace_upper)
qed

lemma atom_ok_upper: "atom_ok u True a (ascii_upper c) = atom_ok u True a c"
  by (cases a) (simp_all add: item_ok_upper list_ex_iff)

lemma atom_ok_upper_comp: "atom_ok u True a \<circ> ascii_upper = atom_ok u True a"
  by (rule ext) (simp add: atom_ok_upper)

lemma run_upper:
  "run u True r (up_state st) = map up_state (run u True r st)"
proof (induction r arbitrary: st)
  case Eps
  show ?case by simp
next
  case (Atom a)
  show ?case by (cases st; cases "fst st") (auto simp: up_state_def atom_ok_upper)
next
  case (Star a)
  show ?case
    by (cases st) (simp add: up_state_def takeWhile_map atom_ok_upper_comp drop_map)
next
  case (Plus a)
  show ?case
    by (cases st) (simp add: up_state_def takeWhile_map atom_ok_upper_comp drop_map)
next
  case (Opt a)
  show ?case by (cases st; cases "fst st") (auto simp: up_state_def atom_ok_upper)
next
  case (Seq r1 r2)
  have "run u True (Seq r1 r2) (up_state st) = concat (map (run u True r2) (map up_state (run u True r1 st)))"
    by (simp add: Seq.IH(1))
  also have "\<dots> = concat (map (\<lambda>x. map up_state (run u True r2 x)) (run u True r1 st))"
    by (simp add: Seq.IH(2) comp_def)
  also have "\<dots> = map up_state (concat (map (run u True r2) (run u True r1 st)))"
    by (simp add: map_concat comp_def)
  finally show ?case by simp
next
  case (Alt r1 r2)
  then show ?case by simp
next
  case (Group r)
  obtain s g where st: "st = (s, g)" by (cases st)
  have "run u True (Group r) (up_state st) =
        map (\<lambda>(s', _). (s', Some (take (length s - length s') (map ascii_upper s)))) (map up_state (run u True r st))"
    using Group.IH [of st] by (simp add: st up_state_def)
  also have "\<dots> = map up_state (map (\<lambda>(s', _). (s', Some (take (length s - length s') s))) (run u True r st))"
    by (simp add: up_state_def take_map case_prod_beta comp_def)
  finally show ?case by (simp add: st)
qed

lemma search_upper:
  "search u True r (map ascii_upper s) = map_option (map_option (map ascii_upper)) (search u True r s)"
proof (induction s)
  case Nil
  have "run u True r ([], None) = map up_state (run u True r ([], None))"
    using run_upper [of u r "([], None)"] by (simp add: up_state_def)
  then show ?case
    by (cases "run u True r ([], None)") (auto simp: up_state_def split: list.splits)
next
  case (Cons c cs)
  have "run u True r (ascii_upper c # map ascii_upper cs, None) = map up_state (run u True r (c # cs, None))"
    using run_upper [of u r "(c # cs, None)"] by (simp add: up_state_def)
  with Cons show ?case
    by (cases "run u True r (c # cs, None)") (auto simp: up_state_def split: list.splits)
qed

lemma strip_upper: "strip (map ascii_upper s) = map ascii_upper (strip s)"
proof -
  have c: "isspace \<circ> ascii_upper = isspace"
    by (rule ext) (simp add: isspace_upper)
  have d: "dropWhile isspace (map ascii_upper xs) = map ascii_upper (dropWhile isspace xs)" for xs
    by (simp add: dropWhile_map c)
  show ?thesis
    by (simp only: strip_def d rev_map)
qed

lemma field_upper: "field u r (map ascii_upper text) = map ascii_upper (field u r text)"
  by (simp add: field_def search_upper strip_upper split: option.splits)


lemma strip_trimmed:
  "strip s = [] \<or> (\<not> isspace (hd (strip s)) \<and> \<not> isspace (last (strip s)))"
proof (cases "dropWhile isspace s = []")
  case True
  have "strip s = []" unfolding strip_def True by simp
  then show ?thesis by simp
next
  case False
  define t where "t = dropWhile isspace s"
  define w where "w = dropWhile isspace (rev t)"
  from False have t: "t \<noteq> []" and h: "\<not> isspace (hd t)"
    by (simp_all add: t_def hd_dropWhile)
  from t h have "\<not> isspace (last (rev t))" by (simp add: last_rev)
  then have "\<exists>x \<in> set (rev t). \<not> isspace x" using t by (metis last_in_set rev_is_Nil_conv)
  then have w: "w \<noteq> []" by (auto simp: w_def dropWhile_eq_Nil_conv)
  then have hw: "\<not> isspace (hd w)" by (simp add: w_def hd_dropWhile)
  obtain pre where p: "rev t = pre @ w"
    by (metis takeWhile_dropWhile_id w_def)
  with w have "last w = last (rev t)" by simp
  also have "\<dots> = hd t" using t by (simp add: last_rev)
  finally have lw: "last w = hd t" .
  have s: "strip s = rev w" by (simp add: strip_def t_def w_def)
  from w hw lw h show ?thesis by (simp add: s hd_rev last_rev)
qed

lemma search_None_iff:
  "search u ic r s = None \<longleftrightarrow> (\<forall>k \<le> length s. run u ic r (drop k s, None) = [])"
proof (induction s)
  case Nil
  show ?case by (simp split: list.splits prod.splits)
next
  case (Cons c cs)
  have "(\<forall>k \<le> length (c # cs). run u ic r (drop k (c # cs), None) = []) \<longleftrightarrow>
        run u ic r (c # cs, None) = [] \<and> (\<forall>k \<le> length cs. run u ic r (drop k cs, None) = [])"
    (is "?L \<longleftrightarrow> ?R")
  proof
    assume l: ?L
    from l have "run u ic r (drop 0 (c # cs), None) = []" by blast
    moreover have "run u ic r (drop k cs, None) = []" if "k \<le> length cs" for k
      using l [rule_format, of "Suc k"] that by simp
    ultimately show ?R by simp
  next
    assume r: ?R
    show ?L
    proof (intro allI impI)
      fix k assume "k \<le> length (c # cs)"
      with r show "run u ic r (drop k (c # cs), None) = []" by (cases k) simp_all
    qed
  qed
  with Cons show ?case by (simp split: list.splits prod.splits)
qed

lemma search_first:
  assumes "k \<le> length s" and "run u ic r (drop k s, None) = (s', g) # rest"
    and "\<forall>j < k. run u ic r (drop j s, None) = []"
  shows "search u ic r s = Some g"
  using assms
proof (induction s arbitrary: k)
  case Nil
  then show ?case by simp
next
  case (Cons c cs)
  show ?case
  proof (cases k)
    case 0
    with Cons.prems show ?thesis by simp
  next
    case (Suc m)
    from Cons.prems(3) Suc have e: "run u ic r (c # cs, None) = []"
      by (metis drop0 zero_less_Suc)
    have "\<forall>j < m. run u ic r (drop j cs, None) = []"
    proof (intro allI impI)
      fix j assume "j < m"
      then have "Suc j < k" using Suc by simp
      with Cons.prems(3) have "run u ic r (drop (Suc j) (c # cs), None) = []" by blast
      then show "run u ic r (drop j cs, None) = []" by simp
    qed
    with Cons.IH [of m] Cons.prems(1,2) Suc have "search u ic r cs = Some g" by simp
    with e show ?thesis by simp
  qed
qed


lemma field_unmatched: "search u True r text = None \<Longrightarrow> field u r text = []"
  by (simp add: field_def)

lemma field_matched: "search u True r text = Some (Some g) \<Longrightarrow> field u r text = strip g"
  by (simp add: field_def)

lemma to_number_br_empty: "to_number_br fl (Some []) = None"
  by (simp add: to_number_br_def)

lemma fields_name_example:
  "extract_fields_from_text E (ascii ''Nome do Colaborador'' @ [10] @ ascii ''JO'' @ [195] @ ascii ''O DA SILVA'') =
     Inr \<lparr>nome = ascii ''JO'' @ [195] @ ascii ''O DA SILVA'', cpf = [], valor_liquido = None\<rparr>"
  unfolding extract_fields_from_text_eq by (simp add: regex_eval to_number_br_def)

lemma fields_cpf_example:
  "extract_fields_from_text E (ascii ''CPF: 123.456.789-00'') =
     Inr \<lparr>nome = [], cpf = ascii ''123.456.789-00'', valor_liquido = None\<rparr>"
  unfolding extract_fields_from_text_eq by (simp add: regex_eval to_number_br_def)

lemma fields_liq_example:
  "extract_fields_from_text E (ascii ''SAL'' @ [193] @ ascii ''RIO L'' @ [205] @ ascii ''QUIDO R$ 1.234,56'') =
     Inr \<lparr>nome = [], cpf = [], valor_liquido = float E (ascii ''1234.56'')\<rparr>"
  unfolding extract_fields_from_text_eq by (simp add: regex_eval to_number_br_def replace_def)

lemma float_1234_56: "cpython_float u (ascii ''1234.56'') = Some (Finite (123456 / 100))"
  by (simp add: float_eval)

lemma fields_none_example:
  "extract_fields_from_text E (ascii ''Recibo de pagamento 2024'') =
     Inr \<lparr>nome = [], cpf = [], valor_liquido = None\<rparr>"
  unfolding extract_fields_from_text_eq by (simp add: regex_eval to_number_br_def)

lemma field_at:
  assumes "run u True r (t, None) = (s', Some g) # xs"
    and "\<forall>j < length pre. run u True r (drop j (pre @ t), None) = []"
  shows "field u r (pre @ t) = strip g"
proof -
  have "search u True r (pre @ t) = Some (Some g)"
    using assms
    by (intro search_first [of "length pre" "pre @ t" u True r "s'" "Some g" xs]) simp_all
  then show ?thesis by (rule field_matched)
qed

lemma run_name_line:
  assumes "c = 10 \<or> c = 13"
  shows "\<exists>xs. run u True nome_re
     (ascii ''Nome do Colaborador'' @ [10] @ ascii ''JO'' @ [195] @ ascii ''O DA SILVA'' @ c # rest, None) =
     (c # rest, Some (ascii ''JO'' @ [195] @ ascii ''O DA SILVA'')) # xs"
  using assms by (elim disjE) (simp_all add: regex_eval)

lemma run_cpf_followed:
  "\<not> isdecimal u c \<Longrightarrow> c \<noteq> 46 \<Longrightarrow> c \<noteq> 45 \<Longrightarrow>
   \<exists>xs. run u True cpf_re (ascii ''CPF: 123.456.789-00'' @ c # rest, None) =
     (c # rest, Some (ascii ''123.456.789-00'')) # xs"
  by (simp add: regex_eval)

lemma run_liq_followed:
  "\<not> isdecimal u c \<Longrightarrow> c \<noteq> 46 \<Longrightarrow> c \<noteq> 44 \<Longrightarrow>
   \<exists>xs. run u True liq_re
     (ascii ''SAL'' @ [193] @ ascii ''RIO L'' @ [205] @ ascii ''QUIDO R$ 1.234,56'' @ c # rest, None) =
     (c # rest, Some (ascii ''1.234,56'')) # xs"
  by (simp add: regex_eval)

lemma strip_consts:
  "strip (ascii ''JO'' @ [195] @ ascii ''O DA SILVA'') = ascii ''JO'' @ [195] @ ascii ''O DA SILVA''"
  "strip (ascii ''123.456.789-00'') = ascii ''123.456.789-00''"
  "strip (ascii ''1.234,56'') = ascii ''1.234,56''"
  by (simp_all add: strip_def ascii_def isspace_def)

lemma name_in_context:
  assumes "c = 10 \<or> c = 13"
    and "\<forall>j < length pre. run u True nome_re
       (drop j (pre @ ascii ''Nome do Colaborador'' @ [10] @ ascii ''JO'' @ [195] @ ascii ''O DA SILVA'' @ c # rest),
        None) = []"
  shows "field u nome_re
       (pre @ ascii ''Nome do Colaborador'' @ [10] @ ascii ''JO'' @ [195] @ ascii ''O DA SILVA'' @ c # rest) =
     ascii ''JO'' @ [195] @ ascii ''O DA SILVA''"
proof -
  from run_name_line [OF assms(1), of u rest] obtain xs where
    "run u True nome_re
     (ascii ''Nome do Colaborador'' @ [10] @ ascii ''JO'' @ [195] @ ascii ''O DA SILVA'' @ c # rest, None) =
     (c # rest, Some (ascii ''JO'' @ [195] @ ascii ''O DA SILVA'')) # xs" ..
  from field_at [OF this assms(2)] show ?thesis by (simp only: strip_consts)
qed

lemma cpf_in_context:
  assumes "\<not> isdecimal u c" and "c \<noteq> 46" and "c \<noteq> 45"
    and "\<forall>j < length pre. run u True cpf_re
       (drop j (pre @ ascii ''CPF: 123.456.789-00'' @ c # rest), None) = []"
  shows "field u cpf_re (pre @ ascii ''CPF: 123.456.789-00'' @ c # rest) = ascii ''123.456.789-00''"
proof -
  from run_cpf_followed [OF assms(1-3), of rest] obtain xs where
    "run u True cpf_re (ascii ''CPF: 123.456.789-00'' @ c # rest, None) =
     (c # rest, Some (ascii ''123.456.789-00'')) # xs" ..
  from field_at [OF this assms(4)] show ?thesis by (simp only: strip_consts)
qed

lemma liq_in_context:
  assumes "\<not> isdecimal u c" and "c \<noteq> 46" and "c \<noteq> 44"
    and "\<forall>j < length pre. run u True liq_re
       (drop j (pre @ ascii ''SAL'' @ [193] @ ascii ''RIO L'' @ [205] @ ascii ''QUIDO R$ 1.234,56'' @ c # rest),
        None) = []"
  shows "field u liq_re
       (pre @ ascii ''SAL'' @ [193] @ ascii ''RIO L'' @ [205] @ ascii ''QUIDO R$ 1.234,56'' @ c # rest) =
     ascii ''1.234,56''"
proof -
  from run_liq_followed [OF assms(1-3), of rest] obtain xs where
    "run u True liq_re
     (ascii ''SAL'' @ [193] @ ascii ''RIO L'' @ [205] @ ascii ''QUIDO R$ 1.234,56'' @ c # rest, None) =
     (c # rest, Some (ascii ''1.234,56'')) # xs" ..
  from field_at [OF this assms(4)] show ?thesis by (simp only: strip_consts)
qed

lemma to_number_br_1234_56: "to_number_br fl (Some (ascii ''1.234,56'')) = fl (ascii ''1234.56'')"
  by (simp add: to_number_br_def replace_def ascii_def)

text \<open>
  C7.  For every text \<open>extract_fields_from_text\<close> returns, without raising, the
  record of three searches, each with its own pattern under \<open>re.I\<close>: \<open>nome\<close> and
  \<open>cpf\<close> are the captures of \<open>nome_re\<close> and \<open>cpf_re\<close>, \<open>valor_liquido\<close> is
  \<open>to_number_br\<close> of the capture of \<open>liq_re\<close>.  A search without a match gives the
  empty string (and \<open>None\<close> for the value), whatever the other two find.  A search with
  a match gives the capture of the first way to match at the leftmost position that
  has one, stripped, so that it neither starts nor ends with white space.  The searches
  ignore case: on the text in upper case each capture is the upper case of the capture
  on the text.

  The examples of the spec, first with the example as the whole text: on
  \<open>Nome do Colaborador\<close>, a line break and \<open>JO\<close>U+00C3\<open>O DA SILVA\<close> the name is
  \<open>JO\<close>U+00C3\<open>O DA SILVA\<close>; on \<open>CPF: 123.456.789-00\<close> the tax id is
  \<open>123.456.789-00\<close>; on \<open>SAL\<close>U+00C1\<open>RIO L\<close>U+00CD\<open>QUIDO R$ 1.234,56\<close> the value is
  \<open>float("1234.56")\<close>, which is 1234.56; on a text with none of the labels the three
  fields are \<open>""\<close>, \<open>""\<close> and \<open>None\<close>.  Then with the example inside a text
  \<open>pre @ example @ c # rest\<close>: the same captures are found when the pattern matches
  nowhere from a position of \<open>pre\<close> and the character \<open>c\<close> after the example ends the
  capture (a line break after the name, a character other than a digit, \<open>.\<close> and
  \<open>-\<close> after the tax id, other than a digit, \<open>.\<close> and \<open>,\<close> after the value).
\<close>

theorem extract_fields_from_text_searches:
  "extract_fields_from_text E tx =
     Inr \<lparr>nome = field (ucd E) nome_re tx, cpf = field (ucd E) cpf_re tx,
          valor_liquido = to_number_br (float E) (Some (field (ucd E) liq_re tx))\<rparr> \<and>
   (search u True r tx = None \<longrightarrow> field u r tx = []) \<and>
   (search (ucd E) True liq_re tx = None \<longrightarrow>
      to_number_br (float E) (Some (field (ucd E) liq_re tx)) = None) \<and>
   (search u True r tx = Some (Some g) \<longrightarrow> field u r tx = strip g) \<and>
   (k \<le> length tx \<and> run u True r (drop k tx, None) = (s', Some g) # rest \<and>
      (\<forall>j < k. run u True r (drop j tx, None) = []) \<longrightarrow> field u r tx = strip g) \<and>
   (strip g = [] \<or> \<not> isspace (hd (strip g)) \<and> \<not> isspace (last (strip g))) \<and>
   field u r (map ascii_upper tx) = map ascii_upper (field u r tx) \<and>
   extract_fields_from_text E (ascii ''Nome do Colaborador'' @ [10] @ ascii ''JO'' @ [195] @ ascii ''O DA SILVA'') =
     Inr \<lparr>nome = ascii ''JO'' @ [195] @ ascii ''O DA SILVA'', cpf = [], valor_liquido = None\<rparr> \<and>
   extract_fields_from_text E (ascii ''CPF: 123.456.789-00'') =
     Inr \<lparr>nome = [], cpf = ascii ''123.456.789-00'', valor_liquido = None\<rparr> \<and>
   extract_fields_from_text E (ascii ''SAL'' @ [193] @ ascii ''RIO L'' @ [205] @ ascii ''QUIDO R$ 1.234,56'') =
     Inr \<lparr>nome = [], cpf = [], valor_liquido = float E (ascii ''1234.56'')\<rparr> \<and>
   cpython_float (ucd E) (ascii ''1234.56'') = Some (Finite (123456 / 100)) \<and>
   extract_fields_from_text E (ascii ''Recibo de pagamento 2024'') =
     Inr \<lparr>nome = [], cpf = [], valor_liquido = None\<rparr> \<and>
   ((c = 10 \<or> c = 13) \<and>
    (\<forall>j < length pre. run u True nome_re
       (drop j (pre @ ascii ''Nome do Colaborador'' @ [10] @ ascii ''JO'' @ [195] @ ascii ''O DA SILVA'' @ c # post),
        None) = []) \<longrightarrow>
    field u nome_re
       (pre @ ascii ''Nome do Colaborador'' @ [10] @ ascii ''JO'' @ [195] @ ascii ''O DA SILVA'' @ c # post) =
      ascii ''JO'' @ [195] @ ascii ''O DA SILVA'') \<and>
   (\<not> isdecimal u c \<and> c \<noteq> 46 \<and> c \<noteq> 45 \<and>
    (\<forall>j < length pre. run u True cpf_re
       (drop j (pre @ ascii ''CPF: 123.456.789-00'' @ c # post), None) = []) \<longrightarrow>
    field u cpf_re (pre @ ascii ''CPF: 123.456.789-00'' @ c # post) = ascii ''123.456.789-00'') \<and>
   (\<not> isdecimal u c \<and> c \<noteq> 46 \<and> c \<noteq> 44 \<and>
    (\<forall>j < length pre. run u True liq_re
       (drop j (pre @ ascii ''SAL'' @ [193] @ ascii ''RIO L'' @ [205] @ ascii ''QUIDO R$ 1.234,56'' @ c # post),
        None) = []) \<longrightarrow>
    field u liq_re
       (pre @ ascii ''SAL'' @ [193] @ ascii ''RIO L'' @ [205] @ ascii ''QUIDO R$ 1.234,56'' @ c # post) =
      ascii ''1.234,56'' \<and>
    to_number_br (float E) (Some (ascii ''1.234,56'')) = float E (ascii ''1234.56''))"
proof (intro conjI impI)
  show "extract_fields_from_text E tx =
     Inr \<lparr>nome = field (ucd E) nome_re tx, cpf = field (ucd E) cpf_re tx,
          valor_liquido = to_number_br (float E) (Some (field (ucd E) liq_re tx))\<rparr>"
    by (rule extract_fields_from_text_eq)
next
  assume "search u True r tx = None"
  then show "field u r tx = []" by (rule field_unmatched)
next
  assume "search (ucd E) True liq_re tx = None"
  then show "to_number_br (float E) (Some (field (ucd E) liq_re tx)) = None"
    by (simp add: field_unmatched to_number_br_empty)
next
  assume "search u True r tx = Some (Some g)"
  then show "field u r tx = strip g" by (rule field_matched)
next
  assume "k \<le> length tx \<and> run u True r (drop k tx, None) = (s', Some g) # rest \<and>
      (\<forall>j < k. run u True r (drop j tx, None) = [])"
  then have "search u True r tx = Some (Some g)"
    by (intro search_first [of k tx u True r "s'" "Some g" rest]) simp_all
  then show "field u r tx = strip g" by (rule field_matched)
next
  show "strip g = [] \<or> \<not> isspace (hd (strip g)) \<and> \<not> isspace (last (strip g))"
    by (rule strip_trimmed)
next
  show "field u r (map ascii_upper tx) = map ascii_upper (field u r tx)"
    by (rule field_upper)
next
  assume "(c = 10 \<or> c = 13) \<and>
    (\<forall>j < length pre. run u True nome_re
       (drop j (pre @ ascii ''Nome do Colaborador'' @ [10] @ ascii ''JO'' @ [195] @ ascii ''O DA SILVA'' @ c # post),
        None) = [])"
  then show "field u nome_re
       (pre @ ascii ''Nome do Colaborador'' @ [10] @ ascii ''JO'' @ [195] @ ascii ''O DA SILVA'' @ c # post) =
      ascii ''JO'' @ [195] @ ascii ''O DA SILVA''"
    by (intro name_in_context) (erule conjunct1, erule conjunct2)
next
  assume a: "\<not> isdecimal u c \<and> c \<noteq> 46 \<and> c \<noteq> 45 \<and>
    (\<forall>j < length pre. run u True cpf_re
       (drop j (pre @ ascii ''CPF: 123.456.789-00'' @ c # post), None) = [])"
  show "field u cpf_re (pre @ ascii ''CPF: 123.456.789-00'' @ c # post) = ascii ''123.456.789-00''"
    by (rule cpf_in_context) (use a in blast)+
next
  assume a: "\<not> isdecimal u c \<and> c \<noteq> 46 \<and> c \<noteq> 44 \<and>
    (\<forall>j < length pre. run u True liq_re
       (drop j (pre @ ascii ''SAL'' @ [193] @ ascii ''RIO L'' @ [205] @ ascii ''QUIDO R$ 1.234,56'' @ c # post),
        None) = [])"
  show "field u liq_re
       (pre @ ascii ''SAL'' @ [193] @ ascii ''RIO L'' @ [205] @ ascii ''QUIDO R$ 1.234,56'' @ c # post) =
      ascii ''1.234,56''"
    by (rule liq_in_context) (use a in blast)+
next
  show "to_number_br (float E) (Some (ascii ''1.234,56'')) = float E (ascii ''1234.56'')"
    by (rule to_number_br_1234_56)
qed (rule fields_name_example fields_cpf_example fields_liq_example float_1234_56 fields_none_example)+

lemma search_cpf_lower: "search u True cpf_re (ascii ''x cpf: 7 '') = Some (Some [55])"
  by (simp add: regex_eval)

lemma run_cpf_lower:
  "run u True cpf_re (drop 2 (ascii ''x cpf: 7 ''), None) = [([32], Some [55])]"
  "run u True cpf_re (drop 0 (ascii ''x cpf: 7 ''), None) = []"
  "run u True cpf_re (drop 1 (ascii ''x cpf: 7 ''), None) = []"
  by (simp_all add: regex_eval)

lemma search_cpf_none: "search u True cpf_re (ascii ''x cpf 7 '') = None"
  by (simp add: regex_eval)

lemma search_liq_none: "search u True liq_re (ascii ''x cpf 7 '') = None"
  by (simp add: regex_eval)

lemma no_match_before:
  "run u True nome_re
     (drop j (ascii ''x '' @ ascii ''Nome do Colaborador'' @ [10] @ ascii ''JO'' @ [195] @ ascii ''O DA SILVA'' @ 10 # []),
      None) = []"
  "run u True cpf_re (drop j (ascii ''x '' @ ascii ''CPF: 123.456.789-00'' @ 10 # []), None) = []"
  "run u True liq_re
     (drop j (ascii ''x '' @ ascii ''SAL'' @ [193] @ ascii ''RIO L'' @ [205] @ ascii ''QUIDO R$ 1.234,56'' @ 10 # []),
      None) = []"
  if "j = 0 \<or> j = 1" for j
  using that by (elim disjE; simp add: regex_eval)+

theorem extract_fields_from_text_searches_witness:
  "search (\<lambda>c. None) True cpf_re (ascii ''x cpf: 7 '') = Some (Some [55]) \<and>
   (2::nat) \<le> length (ascii ''x cpf: 7 '') \<and>
   run (\<lambda>c. None) True cpf_re (drop 2 (ascii ''x cpf: 7 ''), None) = [([32], Some [55])] \<and>
   run (\<lambda>c. None) True cpf_re (drop 0 (ascii ''x cpf: 7 ''), None) = [] \<and>
   run (\<lambda>c. None) True cpf_re (drop 1 (ascii ''x cpf: 7 ''), None) = [] \<and>
   field (\<lambda>c. None) cpf_re (ascii ''x cpf: 7 '') = strip [55] \<and>
   search (\<lambda>c. None) True cpf_re (ascii ''x cpf 7 '') = None \<and>
   search (ucd toy_env) True liq_re (ascii ''x cpf 7 '') = None \<and>
   field (\<lambda>c. None) cpf_re (ascii ''x cpf 7 '') = [] \<and>
   to_number_br (float toy_env) (Some (field (ucd toy_env) liq_re (ascii ''x cpf 7 ''))) = None \<and>
   \<not> isdecimal (\<lambda>c. None) 10 \<and>
   field (\<lambda>c. None) nome_re
     (ascii ''x '' @ ascii ''Nome do Colaborador'' @ [10] @ ascii ''JO'' @ [195] @ ascii ''O DA SILVA'' @ 10 # []) =
     ascii ''JO'' @ [195] @ ascii ''O DA SILVA'' \<and>
   field (\<lambda>c. None) cpf_re (ascii ''x '' @ ascii ''CPF: 123.456.789-00'' @ 10 # []) =
     ascii ''123.456.789-00'' \<and>
   field (\<lambda>c. None) liq_re
     (ascii ''x '' @ ascii ''SAL'' @ [193] @ ascii ''RIO L'' @ [205] @ ascii ''QUIDO R$ 1.234,56'' @ 10 # []) =
     ascii ''1.234,56''"
proof -
  note A = extract_fields_from_text_searches [where E = toy_env and tx = "ascii ''x cpf: 7 ''"
      and u = "\<lambda>c. None" and r = cpf_re and g = "[55]" and k = 2 and s' = "[32]" and rest = "[]"
      and pre = "ascii ''x ''" and c = 10 and post = "[]"]
  note B = extract_fields_from_text_searches [where E = toy_env and tx = "ascii ''x cpf 7 ''"
      and u = "\<lambda>c. None" and r = cpf_re]
  have l: "(2::nat) \<le> length (ascii ''x cpf: 7 '')" by (simp add: ascii_def)
  have d: "\<not> isdecimal (\<lambda>c. None) 10" by (simp add: isdecimal_def todecimal_def)
  have p: "j < length (ascii ''x '') \<longleftrightarrow> j = 0 \<or> j = 1" for j
    by (auto simp: ascii_def)
  have q: "j < 2 \<longleftrightarrow> j = 0 \<or> j = 1" for j :: nat
    by auto
  have z: "\<forall>j < 2. run (\<lambda>c. None) True cpf_re (drop j (ascii ''x cpf: 7 ''), None) = []"
    unfolding q using run_cpf_lower(2,3) [of "\<lambda>c. None"] by blast
  have a4: "field (\<lambda>c. None) cpf_re (ascii ''x cpf: 7 '') = strip [55]"
    using A [THEN conjunct2, THEN conjunct2, THEN conjunct2, THEN conjunct1]
      search_cpf_lower [of "\<lambda>c. None"]
    by blast
  have a5: "field (\<lambda>c. None) cpf_re (ascii ''x cpf: 7 '') = strip [55]"
    using A [THEN conjunct2, THEN conjunct2, THEN conjunct2, THEN conjunct2, THEN conjunct1]
      l run_cpf_lower(1) [of "\<lambda>c. None"] z
    by blast
  have b2: "field (\<lambda>c. None) cpf_re (ascii ''x cpf 7 '') = []"
    using B [THEN conjunct2, THEN conjunct1] search_cpf_none [of "\<lambda>c. None"] by blast
  have b3: "to_number_br (float toy_env) (Some (field (ucd toy_env) liq_re (ascii ''x cpf 7 ''))) = None"
    using B [THEN conjunct2, THEN conjunct2, THEN conjunct1] search_liq_none [of "ucd toy_env"]
    by blast
  note C = A [THEN conjunct2, THEN conjunct2, THEN conjunct2, THEN conjunct2, THEN conjunct2,
      THEN conjunct2, THEN conjunct2, THEN conjunct2, THEN conjunct2, THEN conjunct2,
      THEN conjunct2, THEN conjunct2]
  have ne: "(10::nat) = 10 \<or> (10::nat) = 13" "(10::nat) \<noteq> 46" "(10::nat) \<noteq> 45" "(10::nat) \<noteq> 44"
    by simp_all
  have n13: "\<forall>j < length (ascii ''x ''). run (\<lambda>c. None) True nome_re
     (drop j (ascii ''x '' @ ascii ''Nome do Colaborador'' @ [10] @ ascii ''JO'' @ [195] @ ascii ''O DA SILVA'' @ 10 # []),
      None) = []"
  proof (intro allI impI)
    fix j assume "j < length (ascii ''x '')"
    then have "j = 0 \<or> j = 1" by (simp only: p)
    then show "run (\<lambda>c. None) True nome_re
     (drop j (ascii ''x '' @ ascii ''Nome do Colaborador'' @ [10] @ ascii ''JO'' @ [195] @ ascii ''O DA SILVA'' @ 10 # []),
      None) = []" by (rule no_match_before(1))
  qed
  have n14: "\<forall>j < length (ascii ''x ''). run (\<lambda>c. None) True cpf_re
     (drop j (ascii ''x '' @ ascii ''CPF: 123.456.789-00'' @ 10 # []), None) = []"
  proof (intro allI impI)
    fix j assume "j < length (ascii ''x '')"
    then have "j = 0 \<or> j = 1" by (simp only: p)
    then show "run (\<lambda>c. None) True cpf_re
     (drop j (ascii ''x '' @ ascii ''CPF: 123.456.789-00'' @ 10 # []), None) = []"
      by (rule no_match_before(2))
  qed
  have n15: "\<forall>j < length (ascii ''x ''). run (\<lambda>c. None) True liq_re
     (drop j (ascii ''x '' @ ascii ''SAL'' @ [193] @ ascii ''RIO L'' @ [205] @ ascii ''QUIDO R$ 1.234,56'' @ 10 # []),
      None) = []"
  proof (intro allI impI)
    fix j assume "j < length (ascii ''x '')"
    then have "j = 0 \<or> j = 1" by (simp only: p)
    then show "run (\<lambda>c. None) True liq_re
     (drop j (ascii ''x '' @ ascii ''SAL'' @ [193] @ ascii ''RIO L'' @ [205] @ ascii ''QUIDO R$ 1.234,56'' @ 10 # []),
      None) = []" by (rule no_match_before(3))
  qed
  have c13: "field (\<lambda>c. None) nome_re
     (ascii ''x '' @ ascii ''Nome do Colaborador'' @ [10] @ ascii ''JO'' @ [195] @ ascii ''O DA SILVA'' @ 10 # []) =
     ascii ''JO'' @ [195] @ ascii ''O DA SILVA''"
    by (rule C [THEN conjunct1, THEN mp]) (intro conjI ne n13)
  have c14: "field (\<lambda>c. None) cpf_re (ascii ''x '' @ ascii ''CPF: 123.456.789-00'' @ 10 # []) =
     ascii ''123.456.789-00''"
    by (rule C [THEN conjunct2, THEN conjunct1, THEN mp]) (intro conjI d ne n14)
  have c15: "field (\<lambda>c. None) liq_re
     (ascii ''x '' @ ascii ''SAL'' @ [193] @ ascii ''RIO L'' @ [205] @ ascii ''QUIDO R$ 1.234,56'' @ 10 # []) =
     ascii ''1.234,56''"
    by (rule C [THEN conjunct2, THEN conjunct2, THEN mp, THEN conjunct1]) (intro conjI d ne n15)
  show ?thesis
    by (intro conjI)
      (rule search_cpf_lower [of "\<lambda>c. None"] l run_cpf_lower [of "\<lambda>c. None"] a5
         search_cpf_none [of "\<lambda>c. None"] b2 b3 d c13 c14 c15
         search_liq_none [of "ucd toy_env"])+
qed

section \<open>The numeric normalizer\<close>

text \<open>
  C6.  \<open>to_number_br\<close> returns \<open>None\<close> for \<open>None\<close> and for the empty string.  For
  any other string it returns what \<open>float\<close> makes of the string with every \<open>.\<close>
  removed and every \<open>,\<close> turned into \<open>.\<close>, and \<open>None\<close> when \<open>float\<close> raises; it
  has no other outcome.  With the interpreter's \<open>float\<close>: \<open>"2.987,32"\<close> gives
  2987.32, \<open>""\<close> and \<open>None\<close> give \<open>None\<close>, \<open>"abc"\<close> gives \<open>None\<close>.
\<close>

theorem to_number_br_normalizes:
  "to_number_br fl None = None \<and>
   to_number_br fl (Some []) = None \<and>
   (s \<noteq> [] \<longrightarrow>
      to_number_br fl (Some s) =
        fl (map (\<lambda>c. if c = 44 then 46 else c) (filter (\<lambda>c. c \<noteq> 46) s))) \<and>
   (s \<noteq> [] \<and> fl (map (\<lambda>c. if c = 44 then 46 else c) (filter (\<lambda>c. c \<noteq> 46) s)) = None \<longrightarrow>
      to_number_br fl (Some s) = None) \<and>
   to_number_br (cpython_float u) (Some (ascii ''2.987,32'')) = Some (Finite (298732 / 100)) \<and>
   to_number_br (cpython_float u) (Some []) = None \<and>
   to_number_br (cpython_float u) None = None \<and>
   to_number_br (cpython_float u) (Some (ascii ''abc'')) = None"
proof (intro conjI impI)
  show "to_number_br fl None = None" by (simp add: to_number_br_def)
  show "to_number_br fl (Some []) = None" by (rule to_number_br_empty)
  show "to_number_br (cpython_float u) (Some (ascii ''2.987,32'')) = Some (Finite (298732 / 100))"
    by (simp add: float_eval)
  show "to_number_br (cpython_float u) (Some []) = None"
    by (rule to_number_br_empty)
  show "to_number_br (cpython_float u) None = None" by (simp add: to_number_br_def)
  show "to_number_br (cpython_float u) (Some (ascii ''abc'')) = None"
    by (simp add: float_eval)
next
  assume "s \<noteq> []"
  then show "to_number_br fl (Some s) =
        fl (map (\<lambda>c. if c = 44 then 46 else c) (filter (\<lambda>c. c \<noteq> 46) s))"
    by (simp add: to_number_br_def replace_filter_map)
next
  assume "s \<noteq> [] \<and> fl (map (\<lambda>c. if c = 44 then 46 else c) (filter (\<lambda>c. c \<noteq> 46) s)) = None"
  then show "to_number_br fl (Some s) = None"
    by (simp add: to_number_br_def replace_filter_map)
qed

theorem to_number_br_normalizes_witness:
  "ascii ''1.5,0,'' \<noteq> [] \<and>
   cpython_float (\<lambda>c. None) (map (\<lambda>c. if c = 44 then 46 else c) (filter (\<lambda>c. c \<noteq> 46) (ascii ''1.5,0,''))) = None \<and>
   to_number_br (cpython_float (\<lambda>c. None)) (Some (ascii ''1.5,0,'')) = None"
proof -
  have a: "ascii ''1.5,0,'' \<noteq> []" by (simp add: ascii_def)
  have b: "cpython_float (\<lambda>c. None) (map (\<lambda>c. if c = 44 then 46 else c) (filter (\<lambda>c. c \<noteq> 46) (ascii ''1.5,0,''))) = None"
    by (simp add: float_eval)
  from to_number_br_normalizes [of "cpython_float (\<lambda>c. None)" "ascii ''1.5,0,''" "\<lambda>c. None"] a b
  show ?thesis by simp
qed


end
